theory Spec2Isabelle
  imports Complex_Main "HOL-Library.Log_Nat"
begin

section \<open>Data model of index.tsx\<close>

text \<open>
  A \<open>Date\<close> is represented by the value of its \<open>getTime()\<close>: the integer number of
  milliseconds since the epoch. Only valid dates are represented.

  A JavaScript \<open>number\<close> is an IEEE double: a rational, or one of the three non-finite
  values. The hour differences of \<open>diffHours\<close> and \<open>effectiveHoursExcludingStops\<close> and
  their average \<open>avg\<close> are computed exactly; they are quotients of bounded integers by
  \<open>HOURS\<close>, where rounding touches the last digit only. The arithmetic of \<open>close72Rate\<close>
  and \<open>eNPS\<close>, whose result is rounded to an integer, and the average of arbitrary
  numbers \<open>avg_double\<close> round every operation to the nearest double.

  Optional fields (\<open>?:\<close>, \<open>| null\<close>) are options: \<open>None\<close> stands for both
  \<open>undefined\<close> and \<open>null\<close>, which the code never tells apart (it tests truthiness or
  uses \<open>??\<close>). Several interfaces of the source have fields \<open>id\<close> and \<open>ticketId\<close>, so
  these carry the initial of their interface as a prefix.
\<close>

type_synonym Date = int

datatype jsnum = Num rat | NaN | Infinity | NegInfinity

datatype TicketType = HIRING | ONBOARDING | PERFORMANCE | FAIRNESS | OTHER

datatype TicketStatus = OPEN | IN_PROGRESS | RESOLVED | CLOSED

record Ticket =
  t_id :: string
  t_type :: TicketType
  t_status :: TicketStatus
  title :: string
  description :: "string option"
  createdAt :: Date
  closedAt :: "Date option"

record Requisition =
  r_id :: string
  r_ticketId :: string
  keyRole :: bool
  approvedAt :: "Date option"
  firstInterviewAt :: "Date option"
  offerSignedAt :: "Date option"
  onboardedAt :: "Date option"

record StopClock =
  s_id :: string
  s_ticketId :: string
  startAt :: Date
  endAt :: "Date option"
  reason :: string

record ENPSResponse =
  score :: jsnum
  comment :: "string option"

record Report =
  ttp :: "jsnum option"
  ttf :: "jsnum option"
  close72Rate :: "jsnum option"
  poolMultiple :: "int option"
  eNPS :: "jsnum option"

section \<open>Numbers\<close>

text \<open>\<open>Number.isFinite\<close>.\<close>

fun isFinite :: "jsnum \<Rightarrow> bool" where
  "isFinite (Num q) = True"
| "isFinite NaN = False"
| "isFinite Infinity = False"
| "isFinite NegInfinity = False"

text \<open>
  The operator \<open>+\<close> on numbers in its exact reading, as the reducer of \<open>avg\<close> uses it on
  hour differences. The rounding operator is \<open>dadd\<close> below.
\<close>

fun num_add :: "jsnum \<Rightarrow> jsnum \<Rightarrow> jsnum" where
  "num_add (Num a) (Num b) = Num (a + b)"
| "num_add NaN y = NaN"
| "num_add x NaN = NaN"
| "num_add Infinity NegInfinity = NaN"
| "num_add NegInfinity Infinity = NaN"
| "num_add Infinity y = Infinity"
| "num_add x Infinity = Infinity"
| "num_add NegInfinity y = NegInfinity"
| "num_add x NegInfinity = NegInfinity"

text \<open>
  A number divided by the length of an array (a non-negative integer; the zero is \<open>+0\<close>),
  in its exact reading. The rounding operator is \<open>ddiv\<close> below.
\<close>

fun num_div_length :: "jsnum \<Rightarrow> nat \<Rightarrow> jsnum" where
  "num_div_length (Num a) n =
     (if n = 0 then (if a = 0 then NaN else if 0 < a then Infinity else NegInfinity)
      else Num (a / of_nat n))"
| "num_div_length NaN n = NaN"
| "num_div_length Infinity n = Infinity"
| "num_div_length NegInfinity n = NegInfinity"

text \<open>The comparisons \<open>x >= c\<close> and \<open>x <= c\<close> of a number with a finite constant.\<close>

fun num_ge :: "jsnum \<Rightarrow> rat \<Rightarrow> bool" where
  "num_ge (Num q) c = (c \<le> q)"
| "num_ge NaN c = False"
| "num_ge Infinity c = True"
| "num_ge NegInfinity c = False"

fun num_le :: "jsnum \<Rightarrow> rat \<Rightarrow> bool" where
  "num_le (Num q) c = (q \<le> c)"
| "num_le NaN c = False"
| "num_le Infinity c = False"
| "num_le NegInfinity c = True"

section \<open>Double arithmetic\<close>

text \<open>
  The finite doubles are the rationals \<open>m * 2 ^ e\<close> with \<open>\<bar>m\<bar> < 2 ^ 53\<close> and
  \<open>- 1074 \<le> e\<close>, up to \<open>Number.MAX_VALUE\<close>. \<open>fl\<close> rounds a rational to the nearest
  double, a tie going to the even significand, and gives an infinity when the rounded
  value is beyond \<open>MAX_VALUE\<close>. \<open>ilog2 x\<close> is the exponent of the leading bit of a non-zero
  \<open>x\<close>. The sign of zero is not represented.
\<close>

definition ilog2 :: "rat \<Rightarrow> int" where
  "ilog2 x = (if 1 \<le> \<bar>x\<bar> then bitlen \<lfloor>\<bar>x\<bar>\<rfloor> - 1 else - bitlen (\<lceil>1 / \<bar>x\<bar>\<rceil> - 1))"

definition round_even :: "rat \<Rightarrow> int" where
  "round_even z =
     (let f = \<lfloor>z\<rfloor>; d = z - of_int f
      in if d < 1 / 2 then f else if 1 / 2 < d then f + 1 else if even f then f else f + 1)"

definition MAX_VALUE :: rat where
  "MAX_VALUE = (2 ^ 53 - 1) * 2 ^ 971"

definition fl :: "rat \<Rightarrow> jsnum" where
  "fl x =
     (if x = 0 then Num 0
      else
        (let e = max (ilog2 x - 52) (- 1074);
             y = of_int (round_even (x / 2 powi e)) * 2 powi e
         in if MAX_VALUE < \<bar>y\<bar> then (if 0 < x then Infinity else NegInfinity) else Num y))"

text \<open>
  The operators \<open>+\<close>, \<open>-\<close>, \<open>*\<close> and \<open>/\<close> on doubles: the exact result rounded by \<open>fl\<close>,
  and the rules of IEEE 754 for NaN, the infinities and division by zero.
\<close>

definition signed_infinity :: "bool \<Rightarrow> jsnum" where
  "signed_infinity positive = (if positive then Infinity else NegInfinity)"

fun num_neg :: "jsnum \<Rightarrow> jsnum" where
  "num_neg (Num a) = Num (- a)"
| "num_neg NaN = NaN"
| "num_neg Infinity = NegInfinity"
| "num_neg NegInfinity = Infinity"

fun dadd :: "jsnum \<Rightarrow> jsnum \<Rightarrow> jsnum" where
  "dadd (Num a) (Num b) = fl (a + b)"
| "dadd NaN y = NaN"
| "dadd x NaN = NaN"
| "dadd Infinity NegInfinity = NaN"
| "dadd NegInfinity Infinity = NaN"
| "dadd Infinity y = Infinity"
| "dadd x Infinity = Infinity"
| "dadd NegInfinity y = NegInfinity"
| "dadd x NegInfinity = NegInfinity"

definition dsub :: "jsnum \<Rightarrow> jsnum \<Rightarrow> jsnum" where
  "dsub x y = dadd x (num_neg y)"

fun dmul :: "jsnum \<Rightarrow> jsnum \<Rightarrow> jsnum" where
  "dmul (Num a) (Num b) = fl (a * b)"
| "dmul NaN y = NaN"
| "dmul x NaN = NaN"
| "dmul (Num a) Infinity = (if a = 0 then NaN else signed_infinity (0 < a))"
| "dmul (Num a) NegInfinity = (if a = 0 then NaN else signed_infinity (a < 0))"
| "dmul Infinity (Num b) = (if b = 0 then NaN else signed_infinity (0 < b))"
| "dmul NegInfinity (Num b) = (if b = 0 then NaN else signed_infinity (b < 0))"
| "dmul Infinity Infinity = Infinity"
| "dmul Infinity NegInfinity = NegInfinity"
| "dmul NegInfinity Infinity = NegInfinity"
| "dmul NegInfinity NegInfinity = Infinity"

fun ddiv :: "jsnum \<Rightarrow> jsnum \<Rightarrow> jsnum" where
  "ddiv (Num a) (Num b) =
     (if b = 0 then (if a = 0 then NaN else signed_infinity (0 < a)) else fl (a / b))"
| "ddiv NaN y = NaN"
| "ddiv x NaN = NaN"
| "ddiv (Num a) Infinity = Num 0"
| "ddiv (Num a) NegInfinity = Num 0"
| "ddiv Infinity (Num b) = signed_infinity (0 \<le> b)"
| "ddiv NegInfinity (Num b) = signed_infinity (b < 0)"
| "ddiv Infinity y = NaN"
| "ddiv NegInfinity y = NaN"

text \<open>
  \<open>Math.round\<close>: the nearest integer, a tie going to the larger one; the result is exact
  for every finite double.
\<close>

fun Math_round :: "jsnum \<Rightarrow> jsnum" where
  "Math_round (Num x) = Num (of_int \<lfloor>x + 1 / 2\<rfloor>)"
| "Math_round NaN = NaN"
| "Math_round Infinity = Infinity"
| "Math_round NegInfinity = NegInfinity"

section \<open>Utility functions\<close>

definition HOURS :: int where
  "HOURS = 1000 * 60 * 60"

text \<open>
  \<open>diffHours\<close>: \<open>a && b ? (a.getTime() - b.getTime()) / HOURS : null\<close>. A \<open>Date\<close> object is
  always truthy, so the test is one of presence.
\<close>

fun diffHours :: "Date option \<Rightarrow> Date option \<Rightarrow> rat option" where
  "diffHours (Some a) (Some b) = Some (of_int (a - b) / of_int HOURS)"
| "diffHours a b = None"

text \<open>
  \<open>avg\<close>: \<open>nums.filter(n => Number.isFinite(n))\<close>, then
  \<open>arr.length ? arr.reduce((a, b) => a + b, 0) / arr.length : null\<close>.
\<close>

definition avg :: "jsnum list \<Rightarrow> jsnum option" where
  "avg nums =
     (let arr = filter isFinite nums
      in if length arr \<noteq> 0
         then Some (num_div_length (foldl num_add (Num 0) arr) (length arr))
         else None)"


definition overlapMs :: "Date \<Rightarrow> Date \<Rightarrow> Date \<Rightarrow> Date \<Rightarrow> int" where
  "overlapMs aStart aEnd bStart bEnd =
     (let s = max aStart bStart;
          e = min aEnd bEnd
      in max 0 (e - s))"

text \<open>
  \<open>const sEnd = s.endAt ?? new Date()\<close>: the end of a stop clock, an open one running until
  the instant of the computation. The clock is read through the parameter \<open>now\<close>, one value
  for the whole call.
\<close>

definition sEnd :: "Date \<Rightarrow> StopClock \<Rightarrow> Date" where
  "sEnd now s = (case endAt s of Some e \<Rightarrow> e | None \<Rightarrow> now)"

text \<open>
  The \<open>for\<close> loop of \<open>effectiveHoursExcludingStops\<close> over the ticket's stop clocks, with
  the accumulator \<open>deducted\<close>.
\<close>

fun deduct_loop :: "Date \<Rightarrow> Date \<Rightarrow> Date \<Rightarrow> int \<Rightarrow> StopClock list \<Rightarrow> int" where
  "deduct_loop start end' now deducted [] = deducted"
| "deduct_loop start end' now deducted (s # stops) =
     deduct_loop start end' now (deducted + overlapMs start end' (startAt s) (sEnd now s)) stops"

definition effectiveHoursExcludingStops ::
    "string \<Rightarrow> Date \<Rightarrow> Date \<Rightarrow> StopClock list \<Rightarrow> Date \<Rightarrow> rat" where
  "effectiveHoursExcludingStops ticketId start end' stopClocks now =
     (let total = end' - start
      in if total \<le> 0 then 0
         else
           (let stops = filter (\<lambda>s. s_ticketId s = ticketId) stopClocks;
                deducted = deduct_loop start end' now 0 stops;
                eff = max 0 (total - deducted)
            in of_int eff / of_int HOURS))"

section \<open>The metrics\<close>

text \<open>
  The local constants \<open>fairness\<close> and \<open>within72\<close> of \<open>computeTop8\<close>, and the predicate of
  the filter that \<open>within72\<close> counts:
  \<open>t.closedAt && effectiveHoursExcludingStops(t.id, t.createdAt, t.closedAt, stopClocks) <= 72\<close>.
\<close>

definition fairness :: "Ticket list \<Rightarrow> Ticket list" where
  "fairness ticketList = filter (\<lambda>t. t_type t = FAIRNESS) ticketList"

definition closedWithin72 :: "StopClock list \<Rightarrow> Date \<Rightarrow> Ticket \<Rightarrow> bool" where
  "closedWithin72 stopClocks now t =
     (case closedAt t of
        None \<Rightarrow> False
      | Some c \<Rightarrow> effectiveHoursExcludingStops (t_id t) (createdAt t) c stopClocks now \<le> 72)"

definition within72 :: "Ticket list \<Rightarrow> StopClock list \<Rightarrow> Date \<Rightarrow> nat" where
  "within72 ticketList stopClocks now =
     length (filter (closedWithin72 stopClocks now) (fairness ticketList))"

text \<open>
  The element function of the two \<open>map\<close> calls, \<open>diffHours(x!, y!)!\<close>. The non-null
  assertions are erased at run time, so a null result of \<open>diffHours\<close> would reach \<open>avg\<close>
  as an array element; \<open>Number.isFinite(null)\<close> is false, so \<open>avg\<close> would drop it as it
  drops NaN, which stands for it here.
\<close>

definition hoursOrNull :: "rat option \<Rightarrow> jsnum" where
  "hoursOrNull d = (case d of Some h \<Rightarrow> Num h | None \<Rightarrow> NaN)"

text \<open>
  \<open>computeTop8\<close>. The default \<open>[]\<close> of \<open>stopClocks\<close> is left to the caller, and the clock read
  inside \<open>effectiveHoursExcludingStops\<close> is the last parameter.
\<close>

definition computeTop8 ::
    "Ticket list \<Rightarrow> Requisition list \<Rightarrow> ENPSResponse list \<Rightarrow> StopClock list \<Rightarrow> Date \<Rightarrow> Report" where
  "computeTop8 ticketList reqs enps stopClocks now =
     (let ttp' = avg (map (\<lambda>r. hoursOrNull (diffHours (offerSignedAt r) (firstInterviewAt r)))
                   (filter (\<lambda>r. keyRole r \<and> firstInterviewAt r \<noteq> None \<and> offerSignedAt r \<noteq> None) reqs));
          ttf' = avg (map (\<lambda>r. hoursOrNull (diffHours (onboardedAt r) (approvedAt r)))
                   (filter (\<lambda>r. approvedAt r \<noteq> None \<and> onboardedAt r \<noteq> None) reqs));
          fairnessLength = length (fairness ticketList);
          close72Rate' =
            (if fairnessLength \<noteq> 0
             then Some (Math_round
                    (dmul (ddiv (Num (of_nat (within72 ticketList stopClocks now)))
                                (Num (of_nat fairnessLength)))
                          (Num 100)))
             else None);
          openReqs = length (filter (\<lambda>t. t_type t = HIRING
                        \<and> (t_status t = OPEN \<or> t_status t = IN_PROGRESS)) ticketList);
          poolMultiple' = (if openReqs \<noteq> 0 then Some 3 else None);
          total = length enps;
          promoters = length (filter (\<lambda>e. num_ge (score e) 9) enps);
          detractors = length (filter (\<lambda>e. num_le (score e) 6) enps);
          eNPS' =
            (if total \<noteq> 0
             then Some (Math_round
                    (dmul (dsub (ddiv (Num (of_nat promoters)) (Num (of_nat total)))
                                (ddiv (Num (of_nat detractors)) (Num (of_nat total))))
                          (Num 100)))
             else None)
      in \<lparr>ttp = ttp', ttf = ttf', close72Rate = close72Rate', poolMultiple = poolMultiple',
          eNPS = eNPS'\<rparr>)"

section \<open>The stop-clock routes\<close>

text \<open>
  The handlers of \<open>POST /api/tickets/:id/stop\<close> and \<open>POST /api/tickets/:id/resume\<close> for a
  logged-in caller, as functions on \<open>store.stopClocks\<close>. The state is passed in and the new
  state returned; \<open>cuid()\<close> and \<open>new Date()\<close> are parameters.
\<close>

definition stop :: "string \<Rightarrow> string \<Rightarrow> Date \<Rightarrow> string \<Rightarrow> StopClock list \<Rightarrow> StopClock list" where
  "stop newId ticketId now why stopClocks =
     stopClocks @ [\<lparr>s_id = newId, s_ticketId = ticketId, startAt = now, endAt = None, reason = why\<rparr>]"

text \<open>
  \<open>Array.prototype.find\<close> returns the first matching object itself. Objects are identified
  by their position: \<open>findIndex\<close> gives the position of the first match.
\<close>

fun findIndex :: "('a \<Rightarrow> bool) \<Rightarrow> 'a list \<Rightarrow> nat option" where
  "findIndex P [] = None"
| "findIndex P (x # xs) = (if P x then Some 0 else map_option Suc (findIndex P xs))"

text \<open>
  \<open>[...store.stopClocks].reverse().find(s => s.ticketId === id && !s.endAt)\<close>, then
  \<open>if (latest) latest.endAt = new Date()\<close>. The reversed copy shares its objects with the
  store: position \<open>j\<close> of the copy is position \<open>length - 1 - j\<close> of the store, and the
  assignment changes the store's object there.
\<close>

definition resume :: "string \<Rightarrow> Date \<Rightarrow> StopClock list \<Rightarrow> StopClock list" where
  "resume ticketId now stopClocks =
     (case findIndex (\<lambda>s. s_ticketId s = ticketId \<and> endAt s = None) (rev stopClocks) of
        None \<Rightarrow> stopClocks
      | Some j \<Rightarrow>
          (let i = length stopClocks - 1 - j
           in stopClocks[i := (stopClocks ! i)\<lparr>endAt := Some now\<rparr>]))"

section \<open>Notions used in the statements\<close>


text \<open>
  The sum of the overlaps of the window with each stop clock of the ticket, every stop
  clock taken on its own.
\<close>

definition deduction :: "string \<Rightarrow> Date \<Rightarrow> Date \<Rightarrow> StopClock list \<Rightarrow> Date \<Rightarrow> int" where
  "deduction ticketId start end' stopClocks now =
     sum_list (map (\<lambda>s. overlapMs start end' (startAt s) (sEnd now s))
                (filter (\<lambda>s. s_ticketId s = ticketId) stopClocks))"




text \<open>The stop clocks that \<open>resume\<close> looks for: those of the ticket with no end.\<close>

definition openFor :: "string \<Rightarrow> StopClock \<Rightarrow> bool" where
  "openFor ticketId s \<longleftrightarrow> s_ticketId s = ticketId \<and> endAt s = None"

text \<open>
  The rationals that are finite doubles.
\<close>

definition representable :: "rat \<Rightarrow> bool" where
  "representable x \<longleftrightarrow>
     (\<exists>m e. x = of_int m * 2 powi e \<and> \<bar>m\<bar> < 2 ^ 53 \<and> - 1074 \<le> e) \<and> \<bar>x\<bar> \<le> MAX_VALUE"

text \<open>
  The milliseconds of a window that remain after the deduction, floored at zero.
\<close>

definition effectiveMs :: "string \<Rightarrow> Date \<Rightarrow> Date \<Rightarrow> StopClock list \<Rightarrow> Date \<Rightarrow> int" where
  "effectiveMs ticketId start end' stopClocks now =
     max 0 (end' - start - deduction ticketId start end' stopClocks now)"

text \<open>Promoters score at least 9, detractors at most 6; a NaN score is neither.\<close>

definition promoter :: "ENPSResponse \<Rightarrow> bool" where
  "promoter e = (case score e of Num q \<Rightarrow> 9 \<le> q | Infinity \<Rightarrow> True | _ \<Rightarrow> False)"

definition detractor :: "ENPSResponse \<Rightarrow> bool" where
  "detractor e = (case score e of Num q \<Rightarrow> q \<le> 6 | NegInfinity \<Rightarrow> True | _ \<Rightarrow> False)"

section \<open>Sample data\<close>

definition mkStop :: "string \<Rightarrow> Date \<Rightarrow> Date option \<Rightarrow> StopClock" where
  "mkStop ticketId b e =
     \<lparr>s_id = ''sc'', s_ticketId = ticketId, startAt = b, endAt = e, reason = ''wait''\<rparr>"

definition mkTicket :: "string \<Rightarrow> TicketType \<Rightarrow> Date \<Rightarrow> Date option \<Rightarrow> Ticket" where
  "mkTicket i ty c d =
     \<lparr>t_id = i, t_type = ty, t_status = CLOSED, title = ''case'', description = None,
      createdAt = c, closedAt = d\<rparr>"

text \<open>
  The data of \<open>runTests\<close>, relative to the instant \<open>now\<close> at which the test starts. The
  titles are not ASCII in the source and are replaced by the identifiers; no function reads
  them.
\<close>

definition hoursAgo :: "Date \<Rightarrow> int \<Rightarrow> Date" where
  "hoursAgo now h = now - h * HOURS"

definition demoTickets :: "Date \<Rightarrow> Ticket list" where
  "demoTickets now =
     [\<lparr>t_id = ''F1'', t_type = FAIRNESS, t_status = CLOSED, title = ''F1'', description = None,
       createdAt = hoursAgo now 60, closedAt = Some (hoursAgo now 12)\<rparr>,
      \<lparr>t_id = ''F2'', t_type = FAIRNESS, t_status = CLOSED, title = ''F2'', description = None,
       createdAt = hoursAgo now 120, closedAt = Some (hoursAgo now 20)\<rparr>,
      \<lparr>t_id = ''R1'', t_type = HIRING, t_status = OPEN, title = ''R1'', description = None,
       createdAt = hoursAgo now 10, closedAt = None\<rparr>,
      \<lparr>t_id = ''R2'', t_type = HIRING, t_status = IN_PROGRESS, title = ''R2'', description = None,
       createdAt = hoursAgo now 20, closedAt = None\<rparr>]"

definition demoReqs :: "Date \<Rightarrow> Requisition list" where
  "demoReqs now =
     [\<lparr>r_id = ''RQ1'', r_ticketId = ''R1'', keyRole = True,
       approvedAt = Some (hoursAgo now 400), firstInterviewAt = Some (hoursAgo now 300),
       offerSignedAt = Some (hoursAgo now 276), onboardedAt = Some (hoursAgo now 200)\<rparr>,
      \<lparr>r_id = ''RQ2'', r_ticketId = ''R2'', keyRole = True,
       approvedAt = Some (hoursAgo now 500), firstInterviewAt = Some (hoursAgo now 250),
       offerSignedAt = Some (hoursAgo now 202), onboardedAt = Some (hoursAgo now 140)\<rparr>,
      \<lparr>r_id = ''RQ3'', r_ticketId = ''X1'', keyRole = False,
       approvedAt = Some (hoursAgo now 400), firstInterviewAt = None,
       offerSignedAt = None, onboardedAt = Some (hoursAgo now 160)\<rparr>,
      \<lparr>r_id = ''RQ4'', r_ticketId = ''X2'', keyRole = False,
       approvedAt = Some (hoursAgo now 200), firstInterviewAt = None,
       offerSignedAt = None, onboardedAt = Some (hoursAgo now 80)\<rparr>]"

definition demoENPS :: "ENPSResponse list" where
  "demoENPS = map (\<lambda>n. \<lparr>score = Num n, comment = None\<rparr>) [10, 9, 9, 8, 7, 6, 0]"


text \<open>
  Forty Fairness tickets, 23 of them closed one hour after creation and 17 still open;
  and 24 survey responses, \<open>p\<close> of them promoters and \<open>d\<close> of them detractors.
\<close>

definition fortyTickets :: "Ticket list" where
  "fortyTickets =
     replicate 23 (mkTicket ''F'' FAIRNESS 0 (Some HOURS)) @ replicate 17 (mkTicket ''G'' FAIRNESS 0 None)"

definition mkResponse :: "rat \<Rightarrow> ENPSResponse" where
  "mkResponse s = \<lparr>score = Num s, comment = None\<rparr>"

definition responses24 :: "nat \<Rightarrow> nat \<Rightarrow> ENPSResponse list" where
  "responses24 p d =
     replicate p (mkResponse 10) @ replicate d (mkResponse 0) @ replicate (24 - p - d) (mkResponse 8)"



section \<open>Properties of the utility functions\<close>




text \<open>
  C8. \<open>overlapMs\<close> is symmetric in its two intervals and never negative; it is zero when
  the intervals do not intersect, and when either range is reversed.
\<close>

theorem overlapMs_symmetric_nonneg:
  "overlapMs aStart aEnd bStart bEnd = overlapMs bStart bEnd aStart aEnd
   \<and> 0 \<le> overlapMs aStart aEnd bStart bEnd
   \<and> (aEnd < bStart \<or> bEnd < aStart \<longrightarrow> overlapMs aStart aEnd bStart bEnd = 0)
   \<and> (aEnd < aStart \<or> bEnd < bStart \<longrightarrow> overlapMs aStart aEnd bStart bEnd = 0)"
  by (auto simp: overlapMs_def Let_def max_def min_def)

theorem overlapMs_symmetric_nonneg_witness:
  "overlapMs 0 5 7 9 = overlapMs 7 9 0 5 \<and> 0 \<le> overlapMs 0 5 7 9
   \<and> ((5::int) < 7 \<or> (9::int) < 0) \<and> overlapMs 0 5 7 9 = 0
   \<and> ((3::int) < 8 \<or> (10::int) < 0) \<and> overlapMs 8 3 0 10 = 0
   \<and> ((10::int) < 0 \<or> (3::int) < 8) \<and> overlapMs 0 10 8 3 = 0"
  using overlapMs_symmetric_nonneg [of 0 5 7 9] overlapMs_symmetric_nonneg [of 8 3 0 10]
    overlapMs_symmetric_nonneg [of 0 10 8 3]
  by simp

section \<open>Effective hours\<close>

lemma HOURS_pos: "0 < HOURS"
  by (simp add: HOURS_def)

lemma overlapMs_nonneg: "0 \<le> overlapMs a b c d"
  by (simp add: overlapMs_def Let_def)

lemma overlapMs_reversed: "b \<le> a \<Longrightarrow> overlapMs a b c d = 0"
  by (simp add: overlapMs_def Let_def max_def min_def)

lemma deduct_loop_sum:
  "deduct_loop start end' now d stops =
     d + sum_list (map (\<lambda>s. overlapMs start end' (startAt s) (sEnd now s)) stops)"
  by (induction stops arbitrary: d) simp_all

lemma deduction_nonneg: "0 \<le> deduction tid start end' scs now"
  unfolding deduction_def by (rule sum_list_nonneg) (auto simp: overlapMs_nonneg)

lemma deduction_reversed: "end' \<le> start \<Longrightarrow> deduction tid start end' scs now = 0"
  unfolding deduction_def by (induction scs) (simp_all add: overlapMs_reversed)

lemma deduction_append:
  "deduction tid start end' (xs @ ys) now =
     deduction tid start end' xs now + deduction tid start end' ys now"
  by (simp add: deduction_def)

lemma deduction_Cons_same:
  "s_ticketId s = tid \<Longrightarrow>
   deduction tid start end' (s # ys) now =
     overlapMs start end' (startAt s) (sEnd now s) + deduction tid start end' ys now"
  by (simp add: deduction_def)

text \<open>
  The early return for an empty or reversed window agrees with the general formula, since
  no stop clock overlaps such a window.
\<close>

lemma effective_closed_form:
  "effectiveHoursExcludingStops tid start end' scs now =
     of_int (max 0 (end' - start - deduction tid start end' scs now)) / of_int HOURS"
proof (cases "end' - start \<le> 0")
  case True
  then have "deduction tid start end' scs now = 0"
    by (simp add: deduction_reversed)
  with True show ?thesis
    by (simp add: effectiveHoursExcludingStops_def)
next
  case False
  then show ?thesis
    by (simp add: effectiveHoursExcludingStops_def Let_def deduct_loop_sum deduction_def)
qed

lemma overlap_union_shared:
  "max b1 b2 \<le> min e1 e2 \<Longrightarrow>
   overlapMs a b b1 e1 + overlapMs a b b2 e2 =
     overlapMs a b (min b1 b2) (max e1 e2) + overlapMs a b (max b1 b2) (min e1 e2)"
  unfolding overlapMs_def Let_def by (simp add: max_def min_def split: if_splits)

text \<open>
  C4, as stated: the effective hours are at most \<open>(end - start)\<close> in hours for every
  window. A reversed window refutes it: the result is zero, the difference is negative.
\<close>

theorem effective_exceeds_reversed_window:
  "effectiveHoursExcludingStops ''T'' (1 * HOURS) 0 [] 0 = 0
   \<and> \<not> effectiveHoursExcludingStops ''T'' (1 * HOURS) 0 [] 0
         \<le> of_int (0 - 1 * HOURS) / of_int HOURS
   \<and> effectiveHoursExcludingStops ''T'' (1 * HOURS) 0 [] 0
         \<noteq> of_int (0 - 1 * HOURS) / of_int HOURS"
  by (simp add: effectiveHoursExcludingStops_def HOURS_def)

text \<open>
  C4, amended. The effective hours are never negative and are zero when
  \<open>end \<le> start\<close>. When \<open>start \<le> end\<close> they are at most \<open>(end - start)\<close> in hours, and
  equal to it when no stop clock of the ticket shares more than an instant with the
  window.
\<close>

theorem effective_bounds:
  "0 \<le> effectiveHoursExcludingStops tid start end' scs now
   \<and> (end' \<le> start \<longrightarrow> effectiveHoursExcludingStops tid start end' scs now = 0)
   \<and> (start \<le> end' \<longrightarrow>
        effectiveHoursExcludingStops tid start end' scs now \<le> of_int (end' - start) / of_int HOURS)
   \<and> (start \<le> end' \<and>
        (\<forall>s \<in> set scs. s_ticketId s = tid \<longrightarrow> min end' (sEnd now s) \<le> max start (startAt s)) \<longrightarrow>
        effectiveHoursExcludingStops tid start end' scs now = of_int (end' - start) / of_int HOURS)"
proof (intro conjI impI)
  show "0 \<le> effectiveHoursExcludingStops tid start end' scs now"
    using HOURS_pos by (simp add: effective_closed_form)
  show "effectiveHoursExcludingStops tid start end' scs now = 0" if "end' \<le> start"
    using that by (simp add: effectiveHoursExcludingStops_def)
  show "effectiveHoursExcludingStops tid start end' scs now \<le> of_int (end' - start) / of_int HOURS"
    if "start \<le> end'"
  proof -
    have "max 0 (end' - start - deduction tid start end' scs now) \<le> end' - start"
      using that deduction_nonneg [of tid start end' scs now] by simp
    then have "(of_int (max 0 (end' - start - deduction tid start end' scs now)) :: rat)
        \<le> of_int (end' - start)"
      by (simp only: of_int_le_iff)
    moreover have "(0::rat) \<le> of_int HOURS"
      using HOURS_pos by simp
    ultimately show ?thesis
      unfolding effective_closed_form by (rule divide_right_mono)
  qed
  show "effectiveHoursExcludingStops tid start end' scs now = of_int (end' - start) / of_int HOURS"
    if h: "start \<le> end' \<and>
        (\<forall>s \<in> set scs. s_ticketId s = tid \<longrightarrow> min end' (sEnd now s) \<le> max start (startAt s))"
  proof -
    have "deduction tid start end' scs now = 0"
      using h unfolding deduction_def
      by (induction scs) (auto simp: overlapMs_def Let_def)
    with h show ?thesis
      by (simp add: effective_closed_form)
  qed
qed

theorem effective_bounds_witness:
  "0 \<le> effectiveHoursExcludingStops ''T'' 0 (2 * HOURS) [mkStop ''T'' (3 * HOURS) None] (5 * HOURS)
   \<and> effectiveHoursExcludingStops ''T'' 0 (2 * HOURS) [mkStop ''T'' (3 * HOURS) None] (5 * HOURS) = 2
   \<and> effectiveHoursExcludingStops ''T'' 0 (2 * HOURS) [mkStop ''T'' HOURS None] (5 * HOURS) \<le> 2
   \<and> effectiveHoursExcludingStops ''T'' (2 * HOURS) 0 [mkStop ''T'' HOURS None] (5 * HOURS) = 0"
proof -
  have w: "(0::int) \<le> 2 * HOURS"
    by (simp add: HOURS_def)
  have r: "(0::int) \<le> 2 * HOURS"
    by (simp add: HOURS_def)
  have n: "(0::int) \<le> 2 * HOURS \<and>
      (\<forall>s \<in> set [mkStop ''T'' (3 * HOURS) None]. s_ticketId s = ''T'' \<longrightarrow>
          min (2 * HOURS) (sEnd (5 * HOURS) s) \<le> max 0 (startAt s))"
    by (simp add: mkStop_def sEnd_def HOURS_def)
  have q: "(of_int (2 * HOURS - 0) :: rat) / of_int HOURS = 2"
    by (simp add: HOURS_def)
  show ?thesis
    using effective_bounds [of "''T''" 0 "2 * HOURS" "[mkStop ''T'' (3 * HOURS) None]" "5 * HOURS"]
      effective_bounds [of "''T''" 0 "2 * HOURS" "[mkStop ''T'' HOURS None]" "5 * HOURS"]
      effective_bounds [of "''T''" "2 * HOURS" 0 "[mkStop ''T'' HOURS None]" "5 * HOURS"]
      w n q
    by simp
qed

text \<open>
  C5. The deduction is the sum of each stop clock's own overlap with the window; stop
  clocks are not merged first. For two stop clocks of the ticket that overlap each other,
  wherever they stand in the list, the amount subtracted contains
  \<open>overlap(window, s1) + overlap(window, s2)\<close>, which is the overlap of the window with
  their union plus its overlap with their shared part: the shared part is subtracted
  twice. The result is floored at zero.
\<close>

theorem stops_subtracted_independently:
  assumes "s_ticketId s1 = tid" and "s_ticketId s2 = tid"
    and "max (startAt s1) (startAt s2) \<le> min (sEnd now s1) (sEnd now s2)"
  shows "effectiveHoursExcludingStops tid start end' (xs @ s1 # ys @ s2 # zs) now =
           of_int (max 0 (end' - start
              - (overlapMs start end' (startAt s1) (sEnd now s1)
                 + overlapMs start end' (startAt s2) (sEnd now s2)
                 + deduction tid start end' (xs @ ys @ zs) now))) / of_int HOURS
         \<and> overlapMs start end' (startAt s1) (sEnd now s1)
             + overlapMs start end' (startAt s2) (sEnd now s2) =
           overlapMs start end' (min (startAt s1) (startAt s2)) (max (sEnd now s1) (sEnd now s2))
           + overlapMs start end' (max (startAt s1) (startAt s2)) (min (sEnd now s1) (sEnd now s2))"
proof
  have "deduction tid start end' (xs @ s1 # ys @ s2 # zs) now =
      overlapMs start end' (startAt s1) (sEnd now s1)
      + overlapMs start end' (startAt s2) (sEnd now s2)
      + deduction tid start end' (xs @ ys @ zs) now"
    using assms(1,2) by (simp add: deduction_append deduction_Cons_same)
  then show "effectiveHoursExcludingStops tid start end' (xs @ s1 # ys @ s2 # zs) now =
           of_int (max 0 (end' - start
              - (overlapMs start end' (startAt s1) (sEnd now s1)
                 + overlapMs start end' (startAt s2) (sEnd now s2)
                 + deduction tid start end' (xs @ ys @ zs) now))) / of_int HOURS"
    by (simp only: effective_closed_form)
  show "overlapMs start end' (startAt s1) (sEnd now s1)
             + overlapMs start end' (startAt s2) (sEnd now s2) =
           overlapMs start end' (min (startAt s1) (startAt s2)) (max (sEnd now s1) (sEnd now s2))
           + overlapMs start end' (max (startAt s1) (startAt s2)) (min (sEnd now s1) (sEnd now s2))"
    using assms(3) by (rule overlap_union_shared)
qed

text \<open>
  A window of four hours with stop clocks over hours 0 to 2 and 1 to 3: the union covers
  three hours, the shared part one, four hours are deducted and nothing is left.
\<close>

theorem stops_subtracted_independently_witness:
  "effectiveHoursExcludingStops ''T'' 0 (4 * HOURS)
      ([] @ mkStop ''T'' 0 (Some (2 * HOURS)) # [] @ mkStop ''T'' HOURS (Some (3 * HOURS)) # []) 0 = 0
   \<and> overlapMs 0 (4 * HOURS) 0 (2 * HOURS) + overlapMs 0 (4 * HOURS) HOURS (3 * HOURS) = 4 * HOURS
   \<and> overlapMs 0 (4 * HOURS) 0 (3 * HOURS) = 3 * HOURS
   \<and> overlapMs 0 (4 * HOURS) HOURS (2 * HOURS) = 1 * HOURS"
proof -
  have a: "s_ticketId (mkStop ''T'' 0 (Some (2 * HOURS))) = ''T''"
    by (simp add: mkStop_def)
  have b: "s_ticketId (mkStop ''T'' HOURS (Some (3 * HOURS))) = ''T''"
    by (simp add: mkStop_def)
  have c: "max (startAt (mkStop ''T'' 0 (Some (2 * HOURS)))) (startAt (mkStop ''T'' HOURS (Some (3 * HOURS))))
      \<le> min (sEnd 0 (mkStop ''T'' 0 (Some (2 * HOURS)))) (sEnd 0 (mkStop ''T'' HOURS (Some (3 * HOURS))))"
    by (simp add: mkStop_def sEnd_def HOURS_def)
  show ?thesis
    using stops_subtracted_independently [OF a b c, of 0 "4 * HOURS" "[]" "[]" "[]"]
    by (simp add: mkStop_def sEnd_def deduction_def overlapMs_def HOURS_def)
qed

section \<open>The averages over requisitions\<close>





text \<open>
  C1. For the four requisitions of \<open>runTests\<close> (approved 400, 500, 400 and 200 hours ago,
  onboarded 200, 140, 160 and 80 hours ago) the claim and the assertion of \<open>runTests\<close> give
  \<open>ttf = 180\<close>. \<open>computeTop8\<close> returns 230, the mean of 200, 360, 240 and 120, whatever
  the other arguments are.
\<close>

theorem ttf_demoReqs:
  "ttf (computeTop8 ticketList (demoReqs now) enps stopClocks now') = Some (Num 230)
   \<and> ttf (computeTop8 ticketList (demoReqs now) enps stopClocks now') \<noteq> Some (Num 180)"
  by (simp add: computeTop8_def Let_def demoReqs_def hoursAgo_def avg_def hoursOrNull_def HOURS_def)




section \<open>Resuming a stopped clock\<close>

lemma findIndex_None: "findIndex P xs = None \<longleftrightarrow> (\<forall>x \<in> set xs. \<not> P x)"
  by (induction xs) auto

lemma findIndex_Some:
  "findIndex P xs = Some j \<Longrightarrow> j < length xs \<and> P (xs ! j) \<and> (\<forall>k < j. \<not> P (xs ! k))"
proof (induction xs arbitrary: j)
  case Nil
  then show ?case by simp
next
  case (Cons x xs)
  show ?case
  proof (cases "P x")
    case True
    with Cons.prems show ?thesis by simp
  next
    case False
    with Cons.prems obtain j' where j': "findIndex P xs = Some j'" "j = Suc j'"
      by auto
    from Cons.IH [OF j'(1)] have ih: "j' < length xs" "P (xs ! j')" "\<forall>k < j'. \<not> P (xs ! k)"
      by simp_all
    have "\<not> P ((x # xs) ! k)" if "k < j" for k
      using that False ih(3) j'(2) by (cases k) auto
    with ih j'(2) show ?thesis by simp
  qed
qed

lemma resume_at_last_open:
  assumes i: "i < length scs" and p: "openFor tid (scs ! i)"
    and l: "\<forall>k. i < k \<and> k < length scs \<longrightarrow> \<not> openFor tid (scs ! k)"
  shows "resume tid now scs = scs[i := (scs ! i)\<lparr>endAt := Some now\<rparr>]"
proof -
  let ?P = "\<lambda>s. s_ticketId s = tid \<and> endAt s = None"
  have P: "?P s = openFor tid s" for s
    by (simp add: openFor_def)
  have "scs ! i \<in> set (rev scs)"
    using i by simp
  with p have "findIndex ?P (rev scs) \<noteq> None"
    unfolding findIndex_None P by blast
  then obtain j where j: "findIndex ?P (rev scs) = Some j"
    by auto
  from findIndex_Some [OF j]
  have jl: "j < length scs" and jp: "openFor tid (rev scs ! j)"
    and jm: "\<forall>k < j. \<not> openFor tid (rev scs ! k)"
    by (simp_all add: P)
  let ?i = "length scs - 1 - j"
  have ri: "rev scs ! j = scs ! ?i"
    using jl by (simp add: rev_nth)
  have "\<not> i < ?i"
    using l jp jl unfolding ri by auto
  moreover have "\<not> ?i < i"
  proof
    assume "?i < i"
    then have k: "length scs - 1 - i < j"
      using i jl by arith
    have "rev scs ! (length scs - 1 - i) = scs ! i"
      using i by (simp add: rev_nth)
    with jm k p show False by auto
  qed
  ultimately have "?i = i" by arith
  with j show ?thesis
    by (simp add: resume_def Let_def)
qed

text \<open>
  C7. \<open>resume\<close> sets \<open>endAt\<close> to \<open>now\<close> on the open stop clock of the ticket that stands
  last in the list, the order of insertion, whatever the values of \<open>startAt\<close>, and changes
  nothing else; with no open stop clock of the ticket the list is unchanged. Since \<open>stop\<close>
  appends, a resume after a stop of the same ticket closes the stop clock just added.
\<close>

theorem resume_closes_latest_open:
  "((\<forall>s \<in> set scs. \<not> openFor tid s) \<longrightarrow> resume tid now scs = scs)
   \<and> (i < length scs \<and> openFor tid (scs ! i)
        \<and> (\<forall>k. i < k \<and> k < length scs \<longrightarrow> \<not> openFor tid (scs ! k)) \<longrightarrow>
        resume tid now scs = scs[i := (scs ! i)\<lparr>endAt := Some now\<rparr>])
   \<and> resume tid now (stop newId tid before why scs) =
        scs @ [\<lparr>s_id = newId, s_ticketId = tid, startAt = before, endAt = Some now, reason = why\<rparr>]"
proof (intro conjI impI)
  assume "\<forall>s \<in> set scs. \<not> openFor tid s"
  then have "findIndex (\<lambda>s. s_ticketId s = tid \<and> endAt s = None) (rev scs) = None"
    by (simp add: findIndex_None openFor_def)
  then show "resume tid now scs = scs"
    by (simp add: resume_def)
next
  assume "i < length scs \<and> openFor tid (scs ! i)
        \<and> (\<forall>k. i < k \<and> k < length scs \<longrightarrow> \<not> openFor tid (scs ! k))"
  then show "resume tid now scs = scs[i := (scs ! i)\<lparr>endAt := Some now\<rparr>]"
    by (simp add: resume_at_last_open)
next
  show "resume tid now (stop newId tid before why scs) =
        scs @ [\<lparr>s_id = newId, s_ticketId = tid, startAt = before, endAt = Some now, reason = why\<rparr>]"
    by (simp add: resume_def stop_def Let_def)
qed

text \<open>
  With two open stop clocks of ticket T, the later one in the list is closed although the
  earlier one started later.
\<close>

theorem resume_closes_latest_open_witness:
  "resume ''T'' 9 [mkStop ''T'' 1 (Some 2), mkStop ''U'' 3 None] = [mkStop ''T'' 1 (Some 2), mkStop ''U'' 3 None]
   \<and> resume ''T'' 9 [mkStop ''T'' 7 None, mkStop ''T'' 5 None, mkStop ''U'' 6 None] =
       [mkStop ''T'' 7 None, mkStop ''T'' 5 (Some 9), mkStop ''U'' 6 None]"
proof -
  have a: "\<forall>s \<in> set [mkStop ''T'' 1 (Some 2), mkStop ''U'' 3 None]. \<not> openFor ''T'' s"
    by (simp add: openFor_def mkStop_def)
  let ?scs = "[mkStop ''T'' 7 None, mkStop ''T'' 5 None, mkStop ''U'' 6 None]"
  have b: "1 < length ?scs \<and> openFor ''T'' (?scs ! 1)
      \<and> (\<forall>k. 1 < k \<and> k < length ?scs \<longrightarrow> \<not> openFor ''T'' (?scs ! k))"
  proof (intro conjI allI impI)
    fix k assume "1 < k \<and> k < length ?scs"
    then have "k = 2" by simp
    then show "\<not> openFor ''T'' (?scs ! k)"
      by (simp add: openFor_def mkStop_def)
  qed (simp_all add: openFor_def mkStop_def)
  show ?thesis
    using resume_closes_latest_open [of "[mkStop ''T'' 1 (Some 2), mkStop ''U'' 3 None]" "''T''" 9]
      resume_closes_latest_open [of ?scs "''T''" 9 1] a b
    by (simp add: mkStop_def)
qed

section \<open>Rounding to the nearest double\<close>

lemma ilog2_ge1:
  assumes "1 \<le> \<bar>x\<bar>"
  shows "2 powi ilog2 x \<le> \<bar>x\<bar> \<and> \<bar>x\<bar> < 2 powi (ilog2 x + 1)"
proof -
  let ?z = "\<lfloor>\<bar>x\<bar>\<rfloor>"
  have z: "0 < ?z" using assms by simp
  from bitlen_bounds [OF z] have b: "2 ^ nat (bitlen ?z - 1) \<le> ?z" "?z < 2 ^ nat (bitlen ?z)"
    by simp_all
  have b1: "1 \<le> bitlen ?z"
    using z bitlen_eq_zero_iff [of ?z] bitlen_nonneg [of ?z] by linarith
  have i: "ilog2 x = bitlen ?z - 1" using assms by (simp add: ilog2_def)
  have "(2::rat) powi (bitlen ?z - 1) = of_int (2 ^ nat (bitlen ?z - 1))"
    using b1 by (simp add: power_int_nonneg_exp)
  also have "\<dots> \<le> of_int ?z" using b(1) by (simp only: of_int_le_iff)
  also have "\<dots> \<le> \<bar>x\<bar>" by simp
  finally have lo: "2 powi ilog2 x \<le> \<bar>x\<bar>" by (simp add: i)
  have "?z + 1 \<le> 2 ^ nat (bitlen ?z)" using b(2) by simp
  then have "(of_int (?z + 1) :: rat) \<le> of_int (2 ^ nat (bitlen ?z))"
    by (simp only: of_int_le_iff)
  moreover have "\<bar>x\<bar> < of_int (?z + 1)" by simp linarith
  ultimately have "\<bar>x\<bar> < of_int (2 ^ nat (bitlen ?z))" by linarith
  also have "\<dots> = 2 powi (bitlen ?z)"
    using b1 by (simp add: power_int_nonneg_exp)
  finally have "\<bar>x\<bar> < 2 powi (ilog2 x + 1)" by (simp add: i)
  with lo show ?thesis by simp
qed

lemma ilog2_lt1:
  assumes "x \<noteq> 0" "\<bar>x\<bar> < 1"
  shows "2 powi ilog2 x \<le> \<bar>x\<bar> \<and> \<bar>x\<bar> < 2 powi (ilog2 x + 1)"
proof -
  define r where "r = 1 / \<bar>x\<bar>"
  define w where "w = \<lceil>r\<rceil> - 1"
  define n where "n = nat (bitlen w - 1)"
  have xp: "0 < \<bar>x\<bar>" using assms by simp
  have r1: "1 < r" using assms xp by (simp add: r_def field_simps)
  have wr: "of_int w < r" "r \<le> of_int w + 1"
    unfolding w_def by linarith+
  have w: "0 < w" using r1 wr(2) by linarith
  from bitlen_bounds [OF w] have b: "2 ^ nat (bitlen w - 1) \<le> w" "w < 2 ^ nat (bitlen w)"
    by simp_all
  have b1: "1 \<le> bitlen w"
    using w bitlen_eq_zero_iff [of w] bitlen_nonneg [of w] by linarith
  then have bn: "bitlen w = int n + 1" "nat (bitlen w) = Suc n"
    by (simp_all add: n_def)
  have i: "ilog2 x = - (int n + 1)"
    using assms bn by (simp add: ilog2_def w_def r_def)
  have "w + 1 \<le> 2 ^ Suc n" using b(2) bn by simp
  then have "(of_int (w + 1) :: rat) \<le> of_int (2 ^ Suc n)"
    by (simp only: of_int_le_iff)
  then have "(of_int w :: rat) + 1 \<le> 2 ^ Suc n" by simp
  with wr(2) have "r \<le> 2 ^ Suc n" by linarith
  then have "1 \<le> 2 ^ Suc n * \<bar>x\<bar>"
    using xp by (simp add: r_def field_simps)
  then have "1 / 2 ^ Suc n \<le> \<bar>x\<bar>"
    by (simp add: field_simps)
  moreover have "(2::rat) powi (- (int n + 1)) = 1 / 2 ^ Suc n"
    by (simp only: power_int_minus_divide) (simp add: power_int_add)
  ultimately have lo: "2 powi ilog2 x \<le> \<bar>x\<bar>" by (simp only: i)
  have "(of_int (2 ^ n) :: rat) \<le> of_int w"
    using b(1) unfolding n_def by (simp only: of_int_le_iff)
  then have "(2::rat) ^ n \<le> of_int w" by simp
  with wr(1) have "2 ^ n < r" by linarith
  then have "2 ^ n * \<bar>x\<bar> < 1"
    using xp by (simp add: r_def field_simps)
  then have "\<bar>x\<bar> < 1 / 2 ^ n"
    by (simp add: field_simps)
  moreover have "(2::rat) powi (- (int n + 1) + 1) = 1 / 2 ^ n"
  proof -
    have "- (int n + 1) + 1 = - int n" by simp
    then show ?thesis
      by (simp only: power_int_minus_divide power_int_of_nat)
  qed
  ultimately have "\<bar>x\<bar> < 2 powi (ilog2 x + 1)" by (simp only: i)
  with lo show ?thesis by simp
qed

lemma ilog2_bounds:
  "x \<noteq> 0 \<Longrightarrow> 2 powi ilog2 x \<le> \<bar>x\<bar> \<and> \<bar>x\<bar> < 2 powi (ilog2 x + 1)"
  using ilog2_ge1 [of x] ilog2_lt1 [of x] by (cases "1 \<le> \<bar>x\<bar>") auto

lemma pow2_lessD:
  assumes "(2::rat) powi a < 2 powi b"
  shows "a < b"
proof (rule ccontr)
  assume "\<not> a < b"
  then have "b \<le> a" by simp
  then have "(2::rat) powi b \<le> 2 powi a" by (rule power_int_increasing) simp
  with assms show False by simp
qed

lemma ilog2_eqI:
  assumes "2 powi k \<le> \<bar>x\<bar>" "\<bar>x\<bar> < 2 powi (k + 1)"
  shows "ilog2 x = k"
proof -
  have "(0::rat) < 2 powi k" by (rule zero_less_power_int) simp
  with assms(1) have "0 < \<bar>x\<bar>" by linarith
  then have x: "x \<noteq> 0" by auto
  note b = ilog2_bounds [OF x]
  have "2 powi k < (2::rat) powi (ilog2 x + 1)" using assms(1) b by linarith
  then have 1: "k < ilog2 x + 1" by (rule pow2_lessD)
  have "2 powi ilog2 x < (2::rat) powi (k + 1)" using assms(2) b by linarith
  then have 2: "ilog2 x < k + 1" by (rule pow2_lessD)
  from 1 2 show ?thesis by simp
qed

lemma ilog2_le:
  assumes "x \<noteq> 0" "\<bar>x\<bar> \<le> 2 powi k"
  shows "ilog2 x \<le> k"
proof (rule ccontr)
  assume "\<not> ilog2 x \<le> k"
  then have "k + 1 \<le> ilog2 x" by simp
  then have "(2::rat) powi (k + 1) \<le> 2 powi ilog2 x" by (simp add: power_int_increasing)
  moreover have "(2::rat) powi k < 2 powi (k + 1)" by (simp add: power_int_strict_increasing)
  ultimately show False using ilog2_bounds [OF assms(1)] assms(2) by linarith
qed

lemma round_even_error: "\<bar>of_int (round_even z) - z\<bar> \<le> 1 / 2"
proof -
  have "of_int \<lfloor>z\<rfloor> \<le> z" "z < of_int \<lfloor>z\<rfloor> + 1"
    by linarith+
  then show ?thesis
    unfolding round_even_def Let_def by (simp split: if_splits)
qed

lemma round_even_of_int [simp]: "round_even (of_int m) = m"
  by (simp add: round_even_def)

lemma round_even_eqI: "\<bar>z - of_int m\<bar> < 1 / 2 \<Longrightarrow> round_even z = m"
proof -
  assume a: "\<bar>z - of_int m\<bar> < 1 / 2"
  have "\<bar>of_int (round_even z) - of_int m\<bar> < (1::rat)"
    using round_even_error [of z] a by linarith
  then have "\<bar>round_even z - m\<bar> < 1"
    by (metis of_int_abs of_int_diff of_int_less_1_iff)
  then show ?thesis by simp
qed


lemma pow2_pos: "(0::rat) < 2 powi k"
  by (rule zero_less_power_int) simp

lemma MAX_VALUE_ge: "(2::rat) powi 1023 \<le> MAX_VALUE"
  by (simp add: MAX_VALUE_def)

lemma fl_abs_error:
  assumes "\<bar>x\<bar> \<le> 2 powi k" and "- 1022 \<le> k" and "k \<le> 1022"
  shows "\<exists>y. fl x = Num y \<and> \<bar>y - x\<bar> \<le> 2 powi (k - 53)"
proof (cases "x = 0")
  case True
  then show ?thesis
    using pow2_pos [of "k - 53"] by (simp add: fl_def)
next
  case False
  define e where "e = max (ilog2 x - 52) (- 1074)"
  define m where "m = round_even (x / 2 powi e)"
  define y where "y = of_int m * (2::rat) powi e"
  have "ilog2 x \<le> k" using False assms(1) by (rule ilog2_le)
  then have ek: "e \<le> k - 52" using assms(2) by (simp add: e_def)
  have pe: "(0::rat) < 2 powi e" by (rule pow2_pos)
  have "\<bar>of_int m - x / 2 powi e\<bar> \<le> 1 / 2"
    unfolding m_def by (rule round_even_error)
  then have "\<bar>of_int m - x / 2 powi e\<bar> * 2 powi e \<le> 1 / 2 * 2 powi e"
    using pe by (simp only: mult_le_cancel_right_pos)
  moreover have "\<bar>of_int m - x / 2 powi e\<bar> * 2 powi e = \<bar>y - x\<bar>"
  proof -
    have "\<bar>of_int m - x / 2 powi e\<bar> * 2 powi e = \<bar>(of_int m - x / 2 powi e) * 2 powi e\<bar>"
      using pe by (simp add: abs_mult)
    also have "(of_int m - x / 2 powi e) * 2 powi e = y - x"
      using pe by (simp add: y_def field_simps)
    finally show ?thesis .
  qed
  moreover have "1 / 2 * (2::rat) powi e = 2 powi (e - 1)"
    by (simp add: power_int_diff)
  ultimately have err: "\<bar>y - x\<bar> \<le> 2 powi (e - 1)" by simp
  have "(2::rat) powi (e - 1) \<le> 2 powi (k - 53)"
    using ek by (intro power_int_increasing) simp_all
  with err have err': "\<bar>y - x\<bar> \<le> 2 powi (k - 53)" by simp
  have "(2::rat) powi (k - 53) \<le> 2 powi k"
    by (intro power_int_increasing) simp_all
  with err' assms(1) have "\<bar>y\<bar> \<le> 2 powi k + 2 powi k" by linarith
  also have "\<dots> = 2 powi (k + 1)" by (simp add: power_int_add)
  also have "\<dots> \<le> 2 powi 1023"
    using assms(3) by (intro power_int_increasing) simp_all
  finally have "\<not> MAX_VALUE < \<bar>y\<bar>" using MAX_VALUE_ge by linarith
  then have "fl x = Num y"
    using False by (simp add: fl_def Let_def e_def [symmetric] m_def [symmetric] y_def)
  with err' show ?thesis by blast
qed

lemma fl_representable:
  assumes "representable x"
  shows "fl x = Num x"
proof (cases "x = 0")
  case True
  then show ?thesis by (simp add: fl_def)
next
  case False
  from assms obtain m e' where x: "x = of_int m * 2 powi e'" and m: "\<bar>m\<bar> < 2 ^ 53"
    and e': "- 1074 \<le> e'" and mx: "\<bar>x\<bar> \<le> MAX_VALUE"
    unfolding representable_def by blast
  define e where "e = max (ilog2 x - 52) (- 1074)"
  have "(of_int \<bar>m\<bar> :: rat) < of_int (2 ^ 53)" using m by (simp only: of_int_less_iff)
  then have "\<bar>of_int m :: rat\<bar> < 2 ^ 53" by simp
  then have "\<bar>x\<bar> < 2 ^ 53 * 2 powi e'"
    using pow2_pos [of e'] by (simp add: x abs_mult)
  also have "\<dots> = 2 powi (e' + 53)" by (simp add: power_int_add)
  finally have "2 powi ilog2 x < (2::rat) powi (e' + 53)"
    using ilog2_bounds [OF False] by linarith
  then have "ilog2 x < e' + 53" by (rule pow2_lessD)
  then have ee: "e \<le> e'" using e' by (simp add: e_def)
  define n where "n = nat (e' - e)"
  have "(2::rat) powi e' = 2 powi e * 2 ^ n"
  proof -
    have "e' = e + int n" using ee by (simp add: n_def)
    then show ?thesis by (simp add: power_int_add)
  qed
  then have "x / 2 powi e = of_int (m * 2 ^ n)"
    using pow2_pos [of e] by (simp add: x)
  then have "round_even (x / 2 powi e) = m * 2 ^ n" by (simp only: round_even_of_int)
  then have "of_int (round_even (x / 2 powi e)) * 2 powi e = x"
    using \<open>x / 2 powi e = of_int (m * 2 ^ n)\<close> pow2_pos [of e] by (simp add: field_simps)
  then show ?thesis
    using False mx by (simp add: fl_def Let_def e_def [symmetric])
qed

lemma representable_of_int: "\<bar>z\<bar> < 2 ^ 53 \<Longrightarrow> representable (of_int z)"
proof -
  assume z: "\<bar>z\<bar> < 2 ^ 53"
  then have "(of_int \<bar>z\<bar> :: rat) < of_int (2 ^ 53)" by (simp only: of_int_less_iff)
  then have "\<bar>of_int z :: rat\<bar> \<le> MAX_VALUE" by (simp add: MAX_VALUE_def)
  moreover have "(of_int z :: rat) = of_int z * 2 powi 0" by simp
  ultimately show ?thesis
    unfolding representable_def using z by (intro conjI exI [of _ z] exI [of _ 0]) simp_all
qed

lemma fl_eval:
  assumes "y = of_int m * 2 powi e"
    and "2 powi (e + 52) \<le> \<bar>x\<bar>" and "\<bar>x\<bar> < 2 powi (e + 53)" and "- 1074 \<le> e"
    and "\<bar>x / 2 powi e - of_int m\<bar> < 1 / 2" and "\<bar>y\<bar> \<le> MAX_VALUE"
  shows "fl x = Num y"
proof -
  have "(0::rat) < 2 powi (e + 52)" by (rule pow2_pos)
  with assms(2) have "0 < \<bar>x\<bar>" by linarith
  then have x: "x \<noteq> 0" by auto
  have "ilog2 x = e + 52"
    using assms(2,3) by (intro ilog2_eqI) (simp_all add: add.assoc)
  then have e: "max (ilog2 x - 52) (- 1074) = e" using assms(4) by simp
  have r: "round_even (x / 2 powi e) = m" using assms(5) by (rule round_even_eqI)
  show ?thesis
    using x assms(6) by (simp add: fl_def Let_def e r assms(1))
qed


lemma round_perturbed:
  fixes N f :: int and d :: rat
  assumes f: "0 < f" and c: "\<bar>d - of_int N / of_int f\<bar> < 1 / (2 * of_int f)"
  shows "\<bar>of_int \<lfloor>d + 1 / 2\<rfloor> - of_int N / of_int f\<bar> \<le> (1::rat) / 2"
proof (rule ccontr)
  define r where "r = \<lfloor>d + 1 / 2\<rfloor>"
  define x where "x = (of_int N :: rat) / of_int f"
  have fr: "(0::rat) < of_int f" using f by simp
  have r: "of_int r \<le> d + 1 / 2" "d + 1 / 2 < of_int r + 1"
    unfolding r_def by linarith+
  assume "\<not> \<bar>of_int \<lfloor>d + 1 / 2\<rfloor> - of_int N / of_int f\<bar> \<le> (1::rat) / 2"
  then consider "of_int r + 1 / 2 < x" | "x < of_int r - 1 / 2"
    unfolding r_def x_def by linarith
  then show False
  proof cases
    case 1
    then have "(of_int r * 2 + 1) * of_int f < (of_int N :: rat) * 2"
      using fr by (simp add: x_def field_simps)
    then have "(of_int ((r * 2 + 1) * f) :: rat) < of_int (N * 2)" by simp
    then have "(r * 2 + 1) * f < N * 2" by (simp only: of_int_less_iff)
    then have "(r * 2 + 1) * f + 1 \<le> N * 2" by simp
    then have "(of_int ((r * 2 + 1) * f + 1) :: rat) \<le> of_int (N * 2)" by (simp only: of_int_le_iff)
    then have "(of_int r * 2 + 1) * of_int f + 1 \<le> (of_int N :: rat) * 2" by simp
    then have "((of_int r * 2 + 1) * of_int f + 1) / (2 * of_int f) \<le> (of_int N :: rat) * 2 / (2 * of_int f)"
      by (rule divide_right_mono) (use fr in simp)
    moreover have "((of_int r * 2 + 1) * of_int f + 1) / (2 * of_int f) = (of_int r :: rat) + 1 / 2 + 1 / (2 * of_int f)"
      using fr by (simp add: field_simps)
    moreover have "(of_int N :: rat) * 2 / (2 * of_int f) = x"
      by (simp add: x_def)
    ultimately have "of_int r + 1 / 2 + 1 / (2 * of_int f) \<le> x" by simp
    with r(2) c show False unfolding x_def by linarith
  next
    case 2
    then have "(of_int N :: rat) * 2 < (of_int r * 2 - 1) * of_int f"
      using fr by (simp add: x_def field_simps)
    then have "(of_int (N * 2) :: rat) < of_int ((r * 2 - 1) * f)" by simp
    then have "N * 2 < (r * 2 - 1) * f" by (simp only: of_int_less_iff)
    then have "N * 2 + 1 \<le> (r * 2 - 1) * f" by simp
    then have "(of_int (N * 2 + 1) :: rat) \<le> of_int ((r * 2 - 1) * f)" by (simp only: of_int_le_iff)
    then have "(of_int N :: rat) * 2 + 1 \<le> (of_int r * 2 - 1) * of_int f" by simp
    then have "((of_int N :: rat) * 2 + 1) / (2 * of_int f) \<le> (of_int r * 2 - 1) * of_int f / (2 * of_int f)"
      by (rule divide_right_mono) (use fr in simp)
    moreover have "(of_int r * 2 - 1) * of_int f / (2 * of_int f) = (of_int r :: rat) - 1 / 2"
      using fr by (simp add: field_simps)
    moreover have "((of_int N :: rat) * 2 + 1) / (2 * of_int f) = x + 1 / (2 * of_int f)"
      using fr by (simp add: x_def field_simps)
    ultimately have "x \<le> of_int r - 1 / 2 - 1 / (2 * of_int f)" by simp
    with r(1) c show False unfolding x_def by linarith
  qed
qed


lemma fl_error_upto:
  assumes "\<bar>x\<bar> \<le> 2 ^ k" and "k \<le> 1022"
  shows "\<exists>y. fl x = Num y \<and> \<bar>y - x\<bar> * 2 ^ 53 \<le> 2 ^ k"
proof -
  have "\<bar>x\<bar> \<le> 2 powi int k" using assms(1) by simp
  moreover have "- 1022 \<le> int k" "int k \<le> 1022" using assms(2) by simp_all
  ultimately obtain y where y: "fl x = Num y" "\<bar>y - x\<bar> \<le> 2 powi (int k - 53)"
    using fl_abs_error [of x "int k"] by blast
  have "(2::rat) powi (int k - 53) * 2 ^ 53 = 2 ^ k"
    by (simp add: power_int_diff)
  moreover have "\<bar>y - x\<bar> * 2 ^ 53 \<le> 2 powi (int k - 53) * 2 ^ 53"
    using y(2) by (rule mult_right_mono) simp
  ultimately have "\<bar>y - x\<bar> * 2 ^ 53 \<le> 2 ^ k" by simp
  with y(1) show ?thesis by blast
qed

lemma rate_nearest:
  fixes n f :: nat
  assumes "n \<le> f" and "0 < f" and "f < 2 ^ 32"
  shows "\<exists>r. Math_round (dmul (ddiv (Num (of_nat n)) (Num (of_nat f))) (Num 100)) = Num (of_int r)
           \<and> \<bar>of_int r - 100 * of_nat n / of_nat f\<bar> \<le> (1::rat) / 2"
proof -
  define q where "q = (of_nat n :: rat) / of_nat f"
  have fp: "(0::rat) < of_nat f" using assms(2) by simp
  have q01: "0 \<le> q" "q \<le> 1"
    using assms(1) fp by (simp_all add: q_def)
  then have "\<bar>q\<bar> \<le> 2 ^ 0" by simp
  then obtain a where a: "fl q = Num a" "\<bar>a - q\<bar> * 2 ^ 53 \<le> 2 ^ 0"
    using fl_error_upto [of q 0] by auto
  have "\<bar>a * 100\<bar> \<le> 2 ^ 7" using a(2) q01 by (simp add: abs_if split: if_splits)
  then obtain d where d: "fl (a * 100) = Num d" "\<bar>d - a * 100\<bar> * 2 ^ 53 \<le> 2 ^ 7"
    using fl_error_upto [of "a * 100" 7] by auto
  have e: "\<bar>d - 100 * q\<bar> * 2 ^ 53 \<le> 228"
    using a(2) d(2) by (simp add: abs_if split: if_splits)
  have "(of_nat f :: rat) < of_nat (2 ^ 32)" using assms(3) by (simp only: of_nat_less_iff)
  then have f32: "(of_nat f :: rat) < 2 ^ 32" by simp
  have "\<bar>d - 100 * q\<bar> * (2 * of_nat f) < 1"
  proof -
    have "\<bar>d - 100 * q\<bar> * (2 * of_nat f) \<le> \<bar>d - 100 * q\<bar> * (2 * 2 ^ 32)"
      using f32 by (intro mult_left_mono) simp_all
    also have "\<dots> < 1" using e by (simp add: abs_if split: if_splits)
    finally show ?thesis .
  qed
  then have "\<bar>d - 100 * q\<bar> < 1 / (2 * of_nat f)"
    using fp by (simp add: pos_less_divide_eq)
  then have "\<bar>d - of_int (100 * int n) / of_int (int f)\<bar> < 1 / (2 * of_int (int f))"
    by (simp add: q_def)
  moreover have "0 < int f" using assms(2) by simp
  ultimately have "\<bar>of_int \<lfloor>d + 1 / 2\<rfloor> - of_int (100 * int n) / of_int (int f)\<bar> \<le> (1::rat) / 2"
    by (intro round_perturbed)
  moreover have "Math_round (dmul (ddiv (Num (of_nat n)) (Num (of_nat f))) (Num 100)) = Num (of_int \<lfloor>d + 1 / 2\<rfloor>)"
    using fp a(1) d(1) by (simp add: q_def)
  ultimately show ?thesis by (intro exI [of _ "\<lfloor>d + 1 / 2\<rfloor>"]) simp
qed

lemma enps_nearest:
  fixes p d t :: nat
  assumes "p \<le> t" and "d \<le> t" and "0 < t" and "t < 2 ^ 32"
  shows "\<exists>r. Math_round (dmul (dsub (ddiv (Num (of_nat p)) (Num (of_nat t)))
                                    (ddiv (Num (of_nat d)) (Num (of_nat t)))) (Num 100)) = Num (of_int r)
           \<and> \<bar>of_int r - 100 * (of_nat p - of_nat d) / of_nat t\<bar> \<le> (1::rat) / 2"
proof -
  define x where "x = (of_nat p :: rat) / of_nat t"
  define y where "y = (of_nat d :: rat) / of_nat t"
  have tp: "(0::rat) < of_nat t" using assms(3) by simp
  have x01: "0 \<le> x" "x \<le> 1" using assms(1) tp by (simp_all add: x_def)
  have y01: "0 \<le> y" "y \<le> 1" using assms(2) tp by (simp_all add: y_def)
  have "\<bar>x\<bar> \<le> 2 ^ 0" using x01 by simp
  then obtain a where a: "fl x = Num a" "\<bar>a - x\<bar> * 2 ^ 53 \<le> 2 ^ 0"
    using fl_error_upto [of x 0] by auto
  have "\<bar>y\<bar> \<le> 2 ^ 0" using y01 by simp
  then obtain b where b: "fl y = Num b" "\<bar>b - y\<bar> * 2 ^ 53 \<le> 2 ^ 0"
    using fl_error_upto [of y 0] by auto
  have "\<bar>a + - b\<bar> \<le> 2 ^ 1"
    using a(2) b(2) x01 y01 by (simp add: abs_if split: if_splits)
  then obtain c where c: "fl (a + - b) = Num c" "\<bar>c - (a + - b)\<bar> * 2 ^ 53 \<le> 2 ^ 1"
    using fl_error_upto [of "a + - b" 1] by auto
  have cb: "\<bar>c - (x - y)\<bar> * 2 ^ 53 \<le> 4"
    using a(2) b(2) c(2) by (simp add: abs_if split: if_splits)
  then have "\<bar>c * 100\<bar> \<le> 2 ^ 7"
    using x01 y01 by (simp add: abs_if split: if_splits)
  then obtain e where e: "fl (c * 100) = Num e" "\<bar>e - c * 100\<bar> * 2 ^ 53 \<le> 2 ^ 7"
    using fl_error_upto [of "c * 100" 7] by auto
  have eb: "\<bar>e - 100 * (x - y)\<bar> * 2 ^ 53 \<le> 528"
    using cb e(2) by (simp add: abs_if split: if_splits)
  have "(of_nat t :: rat) < of_nat (2 ^ 32)" using assms(4) by (simp only: of_nat_less_iff)
  then have t32: "(of_nat t :: rat) < 2 ^ 32" by simp
  have "\<bar>e - 100 * (x - y)\<bar> * (2 * of_nat t) < 1"
  proof -
    have "\<bar>e - 100 * (x - y)\<bar> * (2 * of_nat t) \<le> \<bar>e - 100 * (x - y)\<bar> * (2 * 2 ^ 32)"
      using t32 by (intro mult_left_mono) simp_all
    also have "\<dots> < 1" using eb by (simp add: abs_if split: if_splits)
    finally show ?thesis .
  qed
  then have "\<bar>e - 100 * (x - y)\<bar> < 1 / (2 * of_nat t)"
    using tp by (simp add: pos_less_divide_eq)
  moreover have "100 * (x - y) = of_int (100 * (int p - int d)) / of_int (int t)"
    by (simp add: x_def y_def diff_divide_distrib)
  ultimately have "\<bar>e - of_int (100 * (int p - int d)) / of_int (int t)\<bar> < 1 / (2 * of_int (int t))"
    by simp
  moreover have "0 < int t" using assms(3) by simp
  ultimately have "\<bar>of_int \<lfloor>e + 1 / 2\<rfloor> - of_int (100 * (int p - int d)) / of_int (int t)\<bar> \<le> (1::rat) / 2"
    by (intro round_perturbed)
  then have "\<bar>of_int \<lfloor>e + 1 / 2\<rfloor> - 100 * (of_nat p - of_nat d) / of_nat t\<bar> \<le> (1::rat) / 2"
    by simp
  moreover have "Math_round (dmul (dsub (ddiv (Num (of_nat p)) (Num (of_nat t)))
                                    (ddiv (Num (of_nat d)) (Num (of_nat t)))) (Num 100)) = Num (of_int \<lfloor>e + 1 / 2\<rfloor>)"
    using tp a(1) b(1) c(1) e(1) by (simp add: x_def y_def dsub_def)
  ultimately show ?thesis by (intro exI [of _ "\<lfloor>e + 1 / 2\<rfloor>"]) simp
qed

lemma nearest_int_unique:
  assumes "\<bar>of_int r - x\<bar> \<le> (1::rat) / 2" and "\<bar>x - of_int k\<bar> < 1 / 2"
  shows "r = k"
proof -
  have "\<bar>of_int r - of_int k\<bar> < (1::rat)" using assms by linarith
  then have "\<bar>(of_int (r - k) :: rat)\<bar> < 1" by simp
  then have "(of_int \<bar>r - k\<bar> :: rat) < of_int 1" by simp
  then have "\<bar>r - k\<bar> < 1" by (simp only: of_int_less_iff)
  then show ?thesis by simp
qed


section \<open>The average of doubles\<close>




lemma fl_0 [simp]: "fl 0 = Num 0"
  by (simp add: fl_def)









section \<open>The fairness closure rate\<close>

lemma floor_divide_numeral_rat:
  "\<lfloor>(numeral a :: rat) / numeral b\<rfloor> = numeral a div numeral b"
  using floor_divide_of_int_eq [of "numeral a" "numeral b", where ?'a = rat] by simp

lemma close72Rate_eq:
  "close72Rate (computeTop8 ticketList reqs enps stopClocks now) =
     (if length (fairness ticketList) = 0 then None
      else Some (Math_round (dmul (ddiv (Num (of_nat (within72 ticketList stopClocks now)))
                                        (Num (of_nat (length (fairness ticketList))))) (Num 100))))"
  by (simp add: computeTop8_def Let_def del: ddiv.simps dmul.simps Math_round.simps)

lemma closedWithin72_iff:
  "closedWithin72 stopClocks now t \<longleftrightarrow>
     (\<exists>c. closedAt t = Some c \<and> effectiveMs (t_id t) (createdAt t) c stopClocks now \<le> 72 * HOURS)"
proof (cases "closedAt t")
  case None
  then show ?thesis by (simp add: closedWithin72_def)
next
  case (Some c)
  have "(of_int (effectiveMs (t_id t) (createdAt t) c stopClocks now) :: rat) / of_int HOURS \<le> 72
      \<longleftrightarrow> (of_int (effectiveMs (t_id t) (createdAt t) c stopClocks now) :: rat) \<le> of_int (72 * HOURS)"
    using HOURS_pos by (simp add: pos_divide_le_eq)
  also have "\<dots> \<longleftrightarrow> effectiveMs (t_id t) (createdAt t) c stopClocks now \<le> 72 * HOURS"
    by (simp only: of_int_le_iff)
  finally show ?thesis
    using Some by (simp add: closedWithin72_def effective_closed_form effectiveMs_def)
qed

lemma within72_count:
  "within72 ticketList stopClocks now =
     length (filter (\<lambda>t. t_type t = FAIRNESS
                \<and> (\<exists>c. closedAt t = Some c
                      \<and> effectiveMs (t_id t) (createdAt t) c stopClocks now \<le> 72 * HOURS))
              ticketList)"
  unfolding within72_def fairness_def filter_filter closedWithin72_iff
  by (rule arg_cong [where f = length], rule filter_cong) auto

lemma within72_le: "within72 ticketList stopClocks now \<le> length (fairness ticketList)"
  by (simp add: within72_def)

lemma fairness_le: "length (fairness ticketList) \<le> length ticketList"
  by (simp add: fairness_def)

lemma rate_23_40: "Math_round (dmul (ddiv (Num 23) (Num 40)) (Num 100)) = Num 57"
proof -
  have a: "fl (23 / 40) = Num (5179139571476070 / 2 ^ 53)"
    by (rule fl_eval [where m = 5179139571476070 and e = "- 53"]) (simp_all add: MAX_VALUE_def)
  have b: "fl (5179139571476070 / 2 ^ 53 * 100) = Num (8092405580431359 / 2 ^ 47)"
    by (rule fl_eval [where m = 8092405580431359 and e = "- 47"]) (simp_all add: MAX_VALUE_def)
  have 1: "ddiv (Num 23) (Num 40) = Num (5179139571476070 / 2 ^ 53)"
    using a by simp
  have 2: "dmul (Num (5179139571476070 / 2 ^ 53)) (Num 100) = Num (8092405580431359 / 2 ^ 47)"
    by (simp only: dmul.simps b)
  have 3: "Math_round (Num (8092405580431359 / 2 ^ 47)) = Num 57"
    by (simp add: floor_divide_numeral_rat)
  show ?thesis by (simp only: 1 2 3)
qed

lemma fortyTickets_counts:
  "length (fairness fortyTickets) = 40" "within72 fortyTickets [] 0 = 23"
  by (simp_all add: fortyTickets_def fairness_def within72_def closedWithin72_def mkTicket_def
      effectiveHoursExcludingStops_def HOURS_def)

text \<open>
  C3, as stated: \<open>close72Rate\<close> equals \<open>round(100 * n / f)\<close> for every list of tickets.
  With 40 Fairness tickets of which 23 were closed within 72 hours, \<open>100 * n / f\<close> is
  57.5 and rounds to 58; the double \<open>(23 / 40) * 100\<close> is 57.49999999999999 and the
  code returns 57.
\<close>

theorem close72Rate_below_tie:
  "close72Rate (computeTop8 fortyTickets [] [] [] 0) = Some (Num 57)
   \<and> length (filter (\<lambda>t. t_type t = FAIRNESS) fortyTickets) = 40
   \<and> length (filter (\<lambda>t. t_type t = FAIRNESS
                \<and> (\<exists>c. closedAt t = Some c
                      \<and> effectiveMs (t_id t) (createdAt t) c [] 0 \<le> 72 * HOURS)) fortyTickets) = 23
   \<and> round (100 * 23 / 40 :: rat) = 58"
proof -
  have "close72Rate (computeTop8 fortyTickets [] [] [] 0) = Some (Num 57)"
    unfolding close72Rate_eq fortyTickets_counts
    by (simp add: rate_23_40 del: ddiv.simps dmul.simps Math_round.simps)
  moreover have "length (filter (\<lambda>t. t_type t = FAIRNESS) fortyTickets) = 40"
    using fortyTickets_counts(1) by (simp add: fairness_def)
  moreover have "length (filter (\<lambda>t. t_type t = FAIRNESS
                \<and> (\<exists>c. closedAt t = Some c
                      \<and> effectiveMs (t_id t) (createdAt t) c [] 0 \<le> 72 * HOURS)) fortyTickets) = 23"
    using fortyTickets_counts(2) by (simp only: within72_count)
  moreover have "round (100 * 23 / 40 :: rat) = 58"
    by (simp add: round_def floor_divide_numeral_rat)
  ultimately show ?thesis by blast
qed

lemma round_of_nearest:
  assumes "\<bar>of_int r - x\<bar> \<le> (1::rat) / 2" and "frac x \<noteq> 1 / 2"
  shows "round x = r"
proof (rule round_unique)
  have "x \<noteq> of_int r + 1 / 2"
  proof
    assume "x = of_int r + 1 / 2"
    then have "x - 1 / 2 \<in> \<int> \<and> (0::rat) \<le> 1 / 2 \<and> (1::rat) / 2 < 1" by simp
    then have "frac x = 1 / 2" by (rule frac_unique_iff [THEN iffD2])
    with assms(2) show False by simp
  qed
  with assms(1) show "x - 1 / 2 < of_int r" by linarith
  from assms(1) show "of_int r \<le> x + 1 / 2" by linarith
qed

lemma rate_of_within72_nearest:
  assumes "length ticketList < 2 ^ 32" and "length (fairness ticketList) \<noteq> 0"
  shows "\<exists>r. close72Rate (computeTop8 ticketList reqs enps stopClocks now) = Some (Num (of_int r))
           \<and> \<bar>of_int r - 100 * of_nat (within72 ticketList stopClocks now)
                 / of_nat (length (fairness ticketList))\<bar> \<le> (1::rat) / 2"
proof -
  have "length (fairness ticketList) < 2 ^ 32"
    using fairness_le [of ticketList] assms(1) by linarith
  moreover have "0 < length (fairness ticketList)" using assms(2) by simp
  ultimately obtain r where
    "Math_round (dmul (ddiv (Num (of_nat (within72 ticketList stopClocks now)))
        (Num (of_nat (length (fairness ticketList))))) (Num 100)) = Num (of_int r)"
    "\<bar>of_int r - 100 * of_nat (within72 ticketList stopClocks now)
        / of_nat (length (fairness ticketList))\<bar> \<le> (1::rat) / 2"
    using rate_nearest [OF within72_le [of ticketList stopClocks now]] by blast
  then show ?thesis
    using assms(2) by (intro exI [of _ r]) (simp only: close72Rate_eq if_False simp_thms)
qed

text \<open>
  C3, amended. For every list of tickets (of fewer than \<open>2 ^ 32\<close> entries, as every
  array), with \<open>f\<close> the number of tickets of type FAIRNESS, closed or not, and \<open>n\<close> the
  number of those with \<open>closedAt\<close> present whose effective time from \<open>createdAt\<close> to
  \<open>closedAt\<close>, the ticket's stop clocks deducted, is at most 72 hours: \<open>close72Rate\<close> is
  null exactly when \<open>f = 0\<close>, and otherwise an integer at distance at most one half from
  \<open>100 * n / f\<close>. So it is \<open>round(100 * n / f)\<close> unless \<open>100 * n / f\<close> lies half-way
  between two integers, where it is one of the two. It is null once all FAIRNESS tickets
  are filtered out.
\<close>

theorem close72Rate_nearest:
  assumes "length ticketList < 2 ^ 32"
  shows "(close72Rate (computeTop8 ticketList reqs enps stopClocks now) = None
           \<longleftrightarrow> length (filter (\<lambda>t. t_type t = FAIRNESS) ticketList) = 0)
         \<and> (length (filter (\<lambda>t. t_type t = FAIRNESS) ticketList) \<noteq> 0 \<longrightarrow>
              (\<exists>r. close72Rate (computeTop8 ticketList reqs enps stopClocks now) = Some (Num (of_int r))
                 \<and> \<bar>of_int r - 100 * of_nat (length (filter (\<lambda>t. t_type t = FAIRNESS
                          \<and> (\<exists>c. closedAt t = Some c
                                \<and> effectiveMs (t_id t) (createdAt t) c stopClocks now \<le> 72 * HOURS))
                        ticketList))
                      / of_nat (length (filter (\<lambda>t. t_type t = FAIRNESS) ticketList))\<bar> \<le> (1::rat) / 2
                 \<and> (frac (100 * of_nat (length (filter (\<lambda>t. t_type t = FAIRNESS
                          \<and> (\<exists>c. closedAt t = Some c
                                \<and> effectiveMs (t_id t) (createdAt t) c stopClocks now \<le> 72 * HOURS))
                        ticketList))
                      / of_nat (length (filter (\<lambda>t. t_type t = FAIRNESS) ticketList)) :: rat) \<noteq> 1 / 2 \<longrightarrow>
                    r = round (100 * of_nat (length (filter (\<lambda>t. t_type t = FAIRNESS
                          \<and> (\<exists>c. closedAt t = Some c
                                \<and> effectiveMs (t_id t) (createdAt t) c stopClocks now \<le> 72 * HOURS))
                        ticketList))
                      / of_nat (length (filter (\<lambda>t. t_type t = FAIRNESS) ticketList)) :: rat))))
         \<and> close72Rate (computeTop8 (filter (\<lambda>t. t_type t \<noteq> FAIRNESS) ticketList) reqs enps stopClocks now)
              = None"
proof (intro conjI impI)
  show "close72Rate (computeTop8 ticketList reqs enps stopClocks now) = None
      \<longleftrightarrow> length (filter (\<lambda>t. t_type t = FAIRNESS) ticketList) = 0"
    by (simp add: close72Rate_eq fairness_def del: ddiv.simps dmul.simps Math_round.simps)
  show "close72Rate (computeTop8 (filter (\<lambda>t. t_type t \<noteq> FAIRNESS) ticketList) reqs enps stopClocks now)
      = None"
    by (simp add: close72Rate_eq fairness_def del: ddiv.simps dmul.simps Math_round.simps)
  assume "length (filter (\<lambda>t. t_type t = FAIRNESS) ticketList) \<noteq> 0"
  then have "length (fairness ticketList) \<noteq> 0" by (simp add: fairness_def)
  from rate_of_within72_nearest [OF assms this, of reqs enps stopClocks now]
  obtain r where r: "close72Rate (computeTop8 ticketList reqs enps stopClocks now) = Some (Num (of_int r))"
    "\<bar>of_int r - 100 * of_nat (within72 ticketList stopClocks now)
        / of_nat (length (fairness ticketList))\<bar> \<le> (1::rat) / 2"
    by blast
  show "\<exists>r. close72Rate (computeTop8 ticketList reqs enps stopClocks now) = Some (Num (of_int r))
                 \<and> \<bar>of_int r - 100 * of_nat (length (filter (\<lambda>t. t_type t = FAIRNESS
                          \<and> (\<exists>c. closedAt t = Some c
                                \<and> effectiveMs (t_id t) (createdAt t) c stopClocks now \<le> 72 * HOURS))
                        ticketList))
                      / of_nat (length (filter (\<lambda>t. t_type t = FAIRNESS) ticketList))\<bar> \<le> (1::rat) / 2
                 \<and> (frac (100 * of_nat (length (filter (\<lambda>t. t_type t = FAIRNESS
                          \<and> (\<exists>c. closedAt t = Some c
                                \<and> effectiveMs (t_id t) (createdAt t) c stopClocks now \<le> 72 * HOURS))
                        ticketList))
                      / of_nat (length (filter (\<lambda>t. t_type t = FAIRNESS) ticketList)) :: rat) \<noteq> 1 / 2 \<longrightarrow>
                    r = round (100 * of_nat (length (filter (\<lambda>t. t_type t = FAIRNESS
                          \<and> (\<exists>c. closedAt t = Some c
                                \<and> effectiveMs (t_id t) (createdAt t) c stopClocks now \<le> 72 * HOURS))
                        ticketList))
                      / of_nat (length (filter (\<lambda>t. t_type t = FAIRNESS) ticketList)) :: rat))"
    using r round_of_nearest [OF r(2)]
    unfolding within72_count fairness_def by (intro exI [of _ r]) auto
qed

theorem close72Rate_nearest_witness:
  "length (demoTickets 0) < 2 ^ 32
   \<and> length (filter (\<lambda>t. t_type t = FAIRNESS) (demoTickets 0)) = 2
   \<and> length (filter (\<lambda>t. t_type t = FAIRNESS
          \<and> (\<exists>c. closedAt t = Some c
                \<and> effectiveMs (t_id t) (createdAt t) c [] 0 \<le> 72 * HOURS)) (demoTickets 0)) = 1
   \<and> frac (100 * 1 / 2 :: rat) = 0
   \<and> close72Rate (computeTop8 (demoTickets 0) [] [] [] 0) = Some (Num 50)"
proof -
  have l: "length (demoTickets 0) < 2 ^ 32" by (simp add: demoTickets_def)
  have f: "length (filter (\<lambda>t. t_type t = FAIRNESS) (demoTickets 0)) = 2"
    by (simp add: demoTickets_def)
  have "within72 (demoTickets 0) [] 0 = 1"
    by (simp add: within72_def fairness_def closedWithin72_def demoTickets_def hoursAgo_def
        effectiveHoursExcludingStops_def HOURS_def)
  then have n: "length (filter (\<lambda>t. t_type t = FAIRNESS
          \<and> (\<exists>c. closedAt t = Some c
                \<and> effectiveMs (t_id t) (createdAt t) c [] 0 \<le> 72 * HOURS)) (demoTickets 0)) = 1"
    by (simp only: within72_count)
  have e: "100 * of_nat 1 / of_nat 2 = (50::rat)" by simp
  have z: "frac (50::rat) = 0" by simp
  have q: "frac (100 * of_nat 1 / of_nat 2 :: rat) \<noteq> 1 / 2"
    by (simp only: e z)
  from close72Rate_nearest [OF l, of "[]" "[]" "[]" 0]
  obtain r where r: "close72Rate (computeTop8 (demoTickets 0) [] [] [] 0) = Some (Num (of_int r))"
    "\<bar>of_int r - 100 * of_nat 1 / of_nat 2\<bar> \<le> (1::rat) / 2"
    "frac (100 * of_nat 1 / of_nat 2 :: rat) \<noteq> 1 / 2 \<longrightarrow> r = round (100 * of_nat 1 / of_nat 2 :: rat)"
    unfolding f n by auto
  from r(3) q have "r = round (100 * of_nat 1 / of_nat 2 :: rat)" by blast
  then have "r = 50" by (simp only: e round_numeral)
  with r(1) l f n z show ?thesis by simp
qed

lemma filter_remove1_count:
  "P t \<Longrightarrow> t \<in> set xs \<Longrightarrow> length (filter P xs) = Suc (length (filter P (remove1 t xs)))"
  by (induction xs) auto

text \<open>
  C10. A Fairness ticket whose \<open>closedAt\<close> is present and not after its \<open>createdAt\<close> has
  effective duration zero, whatever the stop clocks, and is counted in the numerator of
  \<open>close72Rate\<close>: it is among the tickets that \<open>within72\<close> counts, \<open>within72\<close> is one more
  than without it, and \<open>computeTop8\<close> forms \<open>close72Rate\<close> from this count, as an integer
  at distance at most one half from \<open>100 * within72 / f\<close>. Alone in the list, the ticket
  gives a rate of 100.
\<close>

theorem reversed_window_counts:
  assumes "t \<in> set ticketList" and "t_type t = FAIRNESS"
    and "closedAt t = Some c" and "c \<le> createdAt t"
  shows "effectiveHoursExcludingStops (t_id t) (createdAt t) c stopClocks now = 0
         \<and> closedWithin72 stopClocks now t
         \<and> t \<in> set (filter (closedWithin72 stopClocks now) (fairness ticketList))
         \<and> within72 ticketList stopClocks now = Suc (within72 (remove1 t ticketList) stopClocks now)
         \<and> close72Rate (computeTop8 ticketList reqs enps stopClocks now) =
             Some (Math_round (dmul (ddiv (Num (of_nat (within72 ticketList stopClocks now)))
                                          (Num (of_nat (length (fairness ticketList))))) (Num 100)))
         \<and> (length ticketList < 2 ^ 32 \<longrightarrow>
              (\<exists>r. close72Rate (computeTop8 ticketList reqs enps stopClocks now) = Some (Num (of_int r))
                 \<and> \<bar>of_int r - 100 * of_nat (Suc (within72 (remove1 t ticketList) stopClocks now))
                       / of_nat (length (fairness ticketList))\<bar> \<le> (1::rat) / 2))
         \<and> close72Rate (computeTop8 [t] reqs enps stopClocks now) = Some (Num 100)"
proof -
  have e: "effectiveHoursExcludingStops (t_id t) (createdAt t) c stopClocks now = 0"
    using assms(4) by (simp add: effectiveHoursExcludingStops_def)
  then have w: "closedWithin72 stopClocks now t"
    using assms(3) by (simp add: closedWithin72_def)
  have m: "t \<in> set (filter (closedWithin72 stopClocks now) (fairness ticketList))"
    using assms(1,2) w by (simp add: fairness_def)
  have f: "length (fairness ticketList) \<noteq> 0"
    using assms(1,2) by (auto simp: fairness_def filter_empty_conv)
  have "t_type t = FAIRNESS \<and> closedWithin72 stopClocks now t"
    using assms(2) w by simp
  then have "length (filter (\<lambda>t. t_type t = FAIRNESS \<and> closedWithin72 stopClocks now t) ticketList) =
      Suc (length (filter (\<lambda>t. t_type t = FAIRNESS \<and> closedWithin72 stopClocks now t) (remove1 t ticketList)))"
    using assms(1) by (rule filter_remove1_count)
  then have s: "within72 ticketList stopClocks now = Suc (within72 (remove1 t ticketList) stopClocks now)"
    by (simp add: within72_def fairness_def conj_commute)
  have l: "close72Rate (computeTop8 ticketList reqs enps stopClocks now) =
             Some (Math_round (dmul (ddiv (Num (of_nat (within72 ticketList stopClocks now)))
                                          (Num (of_nat (length (fairness ticketList))))) (Num 100)))"
    using f by (simp only: close72Rate_eq if_False)
  have n: "\<exists>r. close72Rate (computeTop8 ticketList reqs enps stopClocks now) = Some (Num (of_int r))
                 \<and> \<bar>of_int r - 100 * of_nat (Suc (within72 (remove1 t ticketList) stopClocks now))
                       / of_nat (length (fairness ticketList))\<bar> \<le> (1::rat) / 2"
    if "length ticketList < 2 ^ 32"
    using rate_of_within72_nearest [OF that f, of reqs enps stopClocks now]
    by (simp only: s)
  have "fl 100 = Num 100"
    using fl_representable [OF representable_of_int [of 100]] by simp
  moreover have "fairness [t] = [t]" "within72 [t] stopClocks now = 1"
    using assms(2) w by (simp_all add: fairness_def within72_def)
  ultimately have o: "close72Rate (computeTop8 [t] reqs enps stopClocks now) = Some (Num 100)"
    using fl_representable [OF representable_of_int [of 1]]
    by (simp add: close72Rate_eq floor_divide_numeral_rat)
  from e w m s l n o show ?thesis by blast
qed

text \<open>
  An open Fairness ticket and one closed 90 hours before its creation, with an open stop
  clock: the rate is 50.
\<close>

theorem reversed_window_counts_witness:
  "effectiveHoursExcludingStops ''F9'' (100 * HOURS) (10 * HOURS) [mkStop ''F9'' 0 None] 0 = 0
   \<and> closedWithin72 [mkStop ''F9'' 0 None] 0 (mkTicket ''F9'' FAIRNESS (100 * HOURS) (Some (10 * HOURS)))
   \<and> within72 [mkTicket ''G'' FAIRNESS 0 None, mkTicket ''F9'' FAIRNESS (100 * HOURS) (Some (10 * HOURS))]
        [mkStop ''F9'' 0 None] 0 = 1
   \<and> length [mkTicket ''G'' FAIRNESS 0 None, mkTicket ''F9'' FAIRNESS (100 * HOURS) (Some (10 * HOURS))]
        < 2 ^ 32
   \<and> close72Rate (computeTop8
        [mkTicket ''G'' FAIRNESS 0 None, mkTicket ''F9'' FAIRNESS (100 * HOURS) (Some (10 * HOURS))]
        [] [] [mkStop ''F9'' 0 None] 0) = Some (Num 50)
   \<and> close72Rate (computeTop8 [mkTicket ''F9'' FAIRNESS (100 * HOURS) (Some (10 * HOURS))]
        [] [] [mkStop ''F9'' 0 None] 0) = Some (Num 100)"
proof -
  let ?t = "mkTicket ''F9'' FAIRNESS (100 * HOURS) (Some (10 * HOURS))"
  let ?g = "mkTicket ''G'' FAIRNESS 0 None"
  let ?sc = "[mkStop ''F9'' 0 None]"
  have a: "?t \<in> set [?g, ?t]"
    by simp
  have b: "t_type ?t = FAIRNESS"
    by (simp add: mkTicket_def)
  have c: "closedAt ?t = Some (10 * HOURS)"
    by (simp add: mkTicket_def)
  have d: "10 * HOURS \<le> createdAt ?t"
    by (simp add: mkTicket_def HOURS_def)
  have i: "t_id ?t = ''F9''" and k: "createdAt ?t = 100 * HOURS"
    by (simp_all add: mkTicket_def)
  have l: "length [?g, ?t] < 2 ^ 32"
    by simp
  have g: "?g \<noteq> ?t"
    by (simp add: mkTicket_def)
  have r1: "remove1 ?t [?g, ?t] = [?g]"
    using g by simp
  have w0: "within72 [?g] ?sc 0 = 0"
    by (simp add: within72_def fairness_def closedWithin72_def mkTicket_def)
  have f2: "length (fairness [?g, ?t]) = 2"
    by (simp add: fairness_def mkTicket_def)
  note th = reversed_window_counts [OF a b c d, of ?sc 0 "[]" "[]"]
  from th have 1: "effectiveHoursExcludingStops ''F9'' (100 * HOURS) (10 * HOURS) ?sc 0 = 0"
    by (simp add: i k)
  from th have 2: "closedWithin72 ?sc 0 ?t"
    by blast
  from th have "within72 [?g, ?t] ?sc 0 = Suc (within72 (remove1 ?t [?g, ?t]) ?sc 0)"
    by blast
  then have 3: "within72 [?g, ?t] ?sc 0 = 1"
    by (simp only: r1 w0)
  from th l obtain r where r: "close72Rate (computeTop8 [?g, ?t] [] [] ?sc 0) = Some (Num (of_int r))"
    "\<bar>of_int r - 100 * of_nat (Suc (within72 (remove1 ?t [?g, ?t]) ?sc 0))
        / of_nat (length (fairness [?g, ?t]))\<bar> \<le> (1::rat) / 2"
    by blast
  from r(2) have "\<bar>of_int r - (50::rat)\<bar> \<le> 1 / 2"
    by (simp only: r1 w0 f2)
  moreover have "\<bar>(50::rat) - of_int 50\<bar> < 1 / 2"
    by simp
  ultimately have "r = 50"
    by (rule nearest_int_unique)
  with r(1) have 4: "close72Rate (computeTop8 [?g, ?t] [] [] ?sc 0) = Some (Num 50)"
    by simp
  from th have 5: "close72Rate (computeTop8 [?t] [] [] ?sc 0) = Some (Num 100)"
    by blast
  from 1 2 3 l 4 5 show ?thesis
    by blast
qed

section \<open>eNPS\<close>

lemma eNPS_eq:
  "eNPS (computeTop8 ticketList reqs enps stopClocks now) =
     (if length enps = 0 then None
      else Some (Math_round (dmul
             (dsub (ddiv (Num (of_nat (length (filter (\<lambda>e. num_ge (score e) 9) enps))))
                         (Num (of_nat (length enps))))
                   (ddiv (Num (of_nat (length (filter (\<lambda>e. num_le (score e) 6) enps))))
                         (Num (of_nat (length enps)))))
             (Num 100))))"
  by (simp add: computeTop8_def Let_def del: ddiv.simps dmul.simps Math_round.simps)

lemma promoter_iff: "num_ge (score e) 9 = promoter e"
  by (cases "score e") (simp_all add: promoter_def)

lemma detractor_iff: "num_le (score e) 6 = detractor e"
  by (cases "score e") (simp_all add: detractor_def)

lemma enps_counts_nearest:
  assumes "length enps < 2 ^ 32" and "enps \<noteq> []"
  shows "\<exists>r. eNPS (computeTop8 ticketList reqs enps stopClocks now) = Some (Num (of_int r))
           \<and> \<bar>of_int r - 100 * (of_nat (length (filter promoter enps))
                                  - of_nat (length (filter detractor enps)))
                 / of_nat (length enps)\<bar> \<le> (1::rat) / 2"
proof -
  have "length (filter promoter enps) \<le> length enps" "length (filter detractor enps) \<le> length enps"
    by simp_all
  moreover have "0 < length enps" using assms(2) by simp
  ultimately obtain r where
    "Math_round (dmul (dsub (ddiv (Num (of_nat (length (filter promoter enps)))) (Num (of_nat (length enps))))
         (ddiv (Num (of_nat (length (filter detractor enps)))) (Num (of_nat (length enps))))) (Num 100))
       = Num (of_int r)"
    "\<bar>of_int r - 100 * (of_nat (length (filter promoter enps)) - of_nat (length (filter detractor enps)))
        / of_nat (length enps)\<bar> \<le> (1::rat) / 2"
    using enps_nearest [of "length (filter promoter enps)" "length enps" "length (filter detractor enps)"]
      assms(1) by blast
  then show ?thesis
    using assms(2) by (intro exI [of _ r]) (simp only: eNPS_eq promoter_iff detractor_iff length_0_conv if_False simp_thms)
qed

lemma responses24_counts:
  assumes "p + d \<le> 24"
  shows "length (responses24 p d) = 24"
    and "length (filter (\<lambda>e. num_ge (score e) 9) (responses24 p d)) = p"
    and "length (filter (\<lambda>e. num_le (score e) 6) (responses24 p d)) = d"
  using assms by (simp_all add: responses24_def mkResponse_def)

lemma enps_8_5_24:
  "Math_round (dmul (dsub (ddiv (Num 8) (Num 24)) (ddiv (Num 5) (Num 24))) (Num 100)) = Num 12"
proof -
  have a: "fl (8 / 24) = Num (6004799503160661 / 2 ^ 54)"
    by (rule fl_eval [where m = 6004799503160661 and e = "- 54"]) (simp_all add: MAX_VALUE_def)
  have b: "fl (5 / 24) = Num (7505999378950827 / 2 ^ 55)"
    by (rule fl_eval [where m = 7505999378950827 and e = "- 55"]) (simp_all add: MAX_VALUE_def)
  have c: "fl (6004799503160661 / 2 ^ 54 + - (7505999378950827 / 2 ^ 55)) = Num (9007199254740990 / 2 ^ 56)"
    by (rule fl_eval [where m = 9007199254740990 and e = "- 56"]) (simp_all add: MAX_VALUE_def)
  have d: "fl (9007199254740990 / 2 ^ 56 * 100) = Num (7036874417766398 / 2 ^ 49)"
    by (rule fl_eval [where m = 7036874417766398 and e = "- 49"]) (simp_all add: MAX_VALUE_def)
  have 1: "ddiv (Num 8) (Num 24) = Num (6004799503160661 / 2 ^ 54)"
    using a by simp
  have 2: "ddiv (Num 5) (Num 24) = Num (7505999378950827 / 2 ^ 55)"
    using b by simp
  have 3: "dsub (Num (6004799503160661 / 2 ^ 54)) (Num (7505999378950827 / 2 ^ 55))
      = Num (9007199254740990 / 2 ^ 56)"
    by (simp only: dsub_def num_neg.simps dadd.simps c)
  have 4: "dmul (Num (9007199254740990 / 2 ^ 56)) (Num 100) = Num (7036874417766398 / 2 ^ 49)"
    by (simp only: dmul.simps d)
  have 5: "Math_round (Num (7036874417766398 / 2 ^ 49)) = Num 12"
    by (simp add: floor_divide_numeral_rat)
  show ?thesis by (simp only: 1 2 3 4 5)
qed

text \<open>
  C6, as stated: \<open>eNPS\<close> equals \<open>round((promoters / total - detractors / total) * 100)\<close>
  for every list of responses. With 8 promoters and 5 detractors among 24 responses the
  value to round is 12.5, which rounds to 13; the doubles give 12.499999999999996 and the
  code returns 12.
\<close>

theorem eNPS_below_tie:
  "eNPS (computeTop8 [] [] (responses24 8 5) [] 0) = Some (Num 12)
   \<and> length (responses24 8 5) = 24
   \<and> length (filter promoter (responses24 8 5)) = 8
   \<and> length (filter detractor (responses24 8 5)) = 5
   \<and> round ((8 / 24 - 5 / 24) * 100 :: rat) = 13"
proof -
  have p: "(8::nat) + 5 \<le> 24" by simp
  have "eNPS (computeTop8 [] [] (responses24 8 5) [] 0) = Some (Num 12)"
    unfolding eNPS_eq responses24_counts [OF p]
    by (simp add: enps_8_5_24 del: ddiv.simps dmul.simps Math_round.simps)
  moreover have "length (filter promoter (responses24 8 5)) = 8"
    using responses24_counts(2) [OF p] by (simp only: promoter_iff)
  moreover have "length (filter detractor (responses24 8 5)) = 5"
    using responses24_counts(3) [OF p] by (simp only: detractor_iff)
  moreover have "round ((8 / 24 - 5 / 24) * 100 :: rat) = 13"
    by (simp add: round_def floor_divide_numeral_rat)
  ultimately show ?thesis
    using responses24_counts(1) [OF p] by blast
qed

lemma demoENPS_counts:
  "length demoENPS = 7" "length (filter promoter demoENPS) = 3" "length (filter detractor demoENPS) = 2"
  by (simp_all add: demoENPS_def promoter_def detractor_def)

lemma demoENPS_14: "eNPS (computeTop8 ticketList reqs demoENPS stopClocks now) = Some (Num 14)"
proof -
  have "length demoENPS < 2 ^ 32" "demoENPS \<noteq> []"
    by (simp_all add: demoENPS_def)
  from enps_counts_nearest [OF this, of ticketList reqs stopClocks now]
  obtain r where r: "eNPS (computeTop8 ticketList reqs demoENPS stopClocks now) = Some (Num (of_int r))"
    "\<bar>of_int r - 100 * (of_nat 3 - of_nat 2) / of_nat 7\<bar> \<le> (1::rat) / 2"
    unfolding demoENPS_counts by blast
  have "\<bar>100 * (of_nat 3 - of_nat 2) / of_nat 7 - (of_int 14 :: rat)\<bar> < 1 / 2"
    by simp
  with r(2) have "r = 14" by (rule nearest_int_unique)
  with r(1) show ?thesis by simp
qed

text \<open>
  C6, amended. For every list of responses (of fewer than \<open>2 ^ 32\<close> entries, as every
  array), with \<open>promoters\<close> the number of responses with a score of at least 9,
  \<open>detractors\<close> the number with a score of at most 6 and \<open>total\<close> the number of
  responses: \<open>eNPS\<close> is null exactly when there is no response, and otherwise an integer
  at distance at most one half from \<open>(promoters / total - detractors / total) * 100\<close>. So
  it is the rounded value unless that value lies half-way between two integers, where it
  is one of the two. The scores 10, 9, 9, 8, 7, 6, 0 give 14.
\<close>

theorem eNPS_nearest:
  assumes "length enps < 2 ^ 32"
  shows "(eNPS (computeTop8 ticketList reqs enps stopClocks now) = None \<longleftrightarrow> enps = [])
         \<and> (enps \<noteq> [] \<longrightarrow>
              (\<exists>r. eNPS (computeTop8 ticketList reqs enps stopClocks now) = Some (Num (of_int r))
                 \<and> \<bar>of_int r - (of_nat (length (filter promoter enps)) / of_nat (length enps)
                                 - of_nat (length (filter detractor enps)) / of_nat (length enps)) * 100\<bar>
                     \<le> (1::rat) / 2
                 \<and> (frac ((of_nat (length (filter promoter enps)) / of_nat (length enps)
                            - of_nat (length (filter detractor enps)) / of_nat (length enps)) * 100 :: rat)
                       \<noteq> 1 / 2 \<longrightarrow>
                    r = round ((of_nat (length (filter promoter enps)) / of_nat (length enps)
                            - of_nat (length (filter detractor enps)) / of_nat (length enps)) * 100 :: rat))))
         \<and> eNPS (computeTop8 ticketList reqs [] stopClocks now) = None
         \<and> eNPS (computeTop8 ticketList reqs demoENPS stopClocks now) = Some (Num 14)"
proof (intro conjI impI)
  show "eNPS (computeTop8 ticketList reqs enps stopClocks now) = None \<longleftrightarrow> enps = []"
    by (simp add: eNPS_eq del: ddiv.simps dmul.simps Math_round.simps)
  show "eNPS (computeTop8 ticketList reqs [] stopClocks now) = None"
    by (simp add: eNPS_eq)
  show "eNPS (computeTop8 ticketList reqs demoENPS stopClocks now) = Some (Num 14)"
    by (rule demoENPS_14)
  assume ne: "enps \<noteq> []"
  define x where "x = (of_nat (length (filter promoter enps)) / of_nat (length enps)
      - of_nat (length (filter detractor enps)) / of_nat (length enps)) * (100::rat)"
  have x: "100 * (of_nat (length (filter promoter enps)) - of_nat (length (filter detractor enps)))
      / of_nat (length enps) = x"
    by (simp add: x_def diff_divide_distrib mult.commute)
  from enps_counts_nearest [OF assms ne, of ticketList reqs stopClocks now]
  obtain r where r: "eNPS (computeTop8 ticketList reqs enps stopClocks now) = Some (Num (of_int r))"
    "\<bar>of_int r - x\<bar> \<le> 1 / 2"
    unfolding x by blast
  have "frac x \<noteq> 1 / 2 \<longrightarrow> r = round x"
    using round_of_nearest [OF r(2)] by simp
  with r have "eNPS (computeTop8 ticketList reqs enps stopClocks now) = Some (Num (of_int r))
      \<and> \<bar>of_int r - x\<bar> \<le> 1 / 2 \<and> (frac x \<noteq> 1 / 2 \<longrightarrow> r = round x)"
    by blast
  then show "\<exists>r. eNPS (computeTop8 ticketList reqs enps stopClocks now) = Some (Num (of_int r))
                 \<and> \<bar>of_int r - (of_nat (length (filter promoter enps)) / of_nat (length enps)
                                 - of_nat (length (filter detractor enps)) / of_nat (length enps)) * 100\<bar>
                     \<le> (1::rat) / 2
                 \<and> (frac ((of_nat (length (filter promoter enps)) / of_nat (length enps)
                            - of_nat (length (filter detractor enps)) / of_nat (length enps)) * 100 :: rat)
                       \<noteq> 1 / 2 \<longrightarrow>
                    r = round ((of_nat (length (filter promoter enps)) / of_nat (length enps)
                            - of_nat (length (filter detractor enps)) / of_nat (length enps)) * 100 :: rat))"
    unfolding x_def by (rule exI)
qed

theorem eNPS_nearest_witness:
  "length demoENPS < 2 ^ 32 \<and> length demoENPS = 7
   \<and> length (filter promoter demoENPS) = 3 \<and> length (filter detractor demoENPS) = 2
   \<and> frac ((3 / 7 - 2 / 7) * 100 :: rat) = 2 / 7
   \<and> round ((3 / 7 - 2 / 7) * 100 :: rat) = 14
   \<and> eNPS (computeTop8 [] [] demoENPS [] 0) = Some (Num 14)"
proof -
  have l: "length demoENPS < 2 ^ 32" and ne: "demoENPS \<noteq> []"
    by (simp_all add: demoENPS_def)
  have e: "(of_nat 3 / of_nat 7 - of_nat 2 / of_nat 7) * 100 = (100 / 7 :: rat)"
    by simp
  have f: "frac (100 / 7 :: rat) = 2 / 7"
    by (simp add: frac_def floor_divide_numeral_rat)
  have q: "frac (100 / 7 :: rat) \<noteq> 1 / 2"
    by (simp only: f)
  have o: "round (100 / 7 :: rat) = 14"
    by (simp add: round_def floor_divide_numeral_rat)
  from eNPS_nearest [OF l, of "[]" "[]" "[]" 0] ne
  obtain r where r: "eNPS (computeTop8 [] [] demoENPS [] 0) = Some (Num (of_int r))"
    "frac (100 / 7 :: rat) \<noteq> 1 / 2 \<longrightarrow> r = round (100 / 7 :: rat)"
    unfolding demoENPS_counts e by blast
  from r(2) q o have "r = 14" by simp
  with r(1) have "eNPS (computeTop8 [] [] demoENPS [] 0) = Some (Num 14)" by simp
  moreover have "frac ((3 / 7 - 2 / 7) * 100 :: rat) = 2 / 7" using f by simp
  moreover have "round ((3 / 7 - 2 / 7) * 100 :: rat) = 14" using o by simp
  ultimately show ?thesis
    using l demoENPS_counts by blast
qed

text \<open>
  On the data of \<open>runTests\<close> the model also gives the values that the test asserts for
  \<open>ttp\<close> and \<open>poolMultiple\<close>.
\<close>

lemma demo_ttp_poolMultiple:
  "ttp (computeTop8 (demoTickets now) (demoReqs now) demoENPS [] now') = Some (Num 36)
   \<and> poolMultiple (computeTop8 (demoTickets now) (demoReqs now) demoENPS [] now') = Some 3"
  by (simp add: computeTop8_def Let_def demoTickets_def demoReqs_def hoursAgo_def avg_def
      hoursOrNull_def HOURS_def)

end
